theory Spec2Isabelle
  imports Complex_Main "HOL-Library.Sublist"
begin

section \<open>JavaScript strings\<close>

text \<open>
  A JavaScript string is a sequence of UTF-16 code units. It is modelled as a
  \<^typ>\<open>string\<close>, so the model covers the code units below 256; the white space
  and line terminator characters above that range (U+1680, U+2000 to U+200A, U+2028,
  U+2029, U+202F, U+205F, U+3000, U+FEFF) have no counterpart here.
\<close>

definition isLineTerminator :: "char \<Rightarrow> bool" where
  \<comment> \<open>The characters the regular expression atom \<open>.\<close> does not match.\<close>
  "isLineTerminator c = (c = CHR 0x0A \<or> c = CHR 0x0D)"

definition isWhiteSpace :: "char \<Rightarrow> bool" where
  \<comment> \<open>What \<open>String.prototype.trim\<close> strips: WhiteSpace and LineTerminator.\<close>
  "isWhiteSpace c =
     (c = CHR 0x09 \<or> c = CHR 0x0A \<or> c = CHR 0x0B \<or> c = CHR 0x0C \<or> c = CHR 0x0D
      \<or> c = CHR 0x20 \<or> c = CHR 0xA0)"

definition trim :: "string \<Rightarrow> string" where
  "trim s = rev (dropWhile isWhiteSpace (rev (dropWhile isWhiteSpace s)))"

text \<open>
  \<open>GetSubstitution\<close> for a string pattern (no capture groups): in the replacement
  text \<open>$$\<close> stands for a dollar sign, \<open>$&\<close> for the matched text, \<open>$`\<close> for the
  text before the match and \<open>$'\<close> for the text after it; every other character,
  a dollar sign in front of a digit or \<open><\<close> included, stands for itself.
\<close>

fun getSubstitution :: "string \<Rightarrow> string \<Rightarrow> string \<Rightarrow> string \<Rightarrow> string" where
  "getSubstitution matched preceding following [] = []"
| "getSubstitution matched preceding following [c] = [c]"
| "getSubstitution matched preceding following (c # d # rest) =
     (if c = CHR ''$'' then
        (if d = CHR ''$'' then CHR ''$'' # getSubstitution matched preceding following rest
         else if d = CHR ''&'' then matched @ getSubstitution matched preceding following rest
         else if d = CHR 0x60 then preceding @ getSubstitution matched preceding following rest
         else if d = CHR 0x27 then following @ getSubstitution matched preceding following rest
         else c # getSubstitution matched preceding following (d # rest))
      else c # getSubstitution matched preceding following (d # rest))"

text \<open>
  \<open>String.prototype.replaceAll\<close> with a string pattern: the occurrences are found
  from left to right, each search resuming after the previous occurrence, and every
  one is replaced by the substitution computed at its position. \<open>preceding\<close> is the part
  of the original string already scanned. Every pattern of this program has a brace
  at each end, so the empty pattern (which JavaScript matches between all code units)
  is left alone here.
\<close>

fun replaceAllFrom :: "string \<Rightarrow> string \<Rightarrow> string \<Rightarrow> string \<Rightarrow> string" where
  "replaceAllFrom pat rep preceding [] = []"
| "replaceAllFrom pat rep preceding (c # cs) =
     (if pat \<noteq> [] \<and> prefix pat (c # cs) then
        getSubstitution pat preceding (drop (length pat) (c # cs)) rep
          @ replaceAllFrom pat rep (preceding @ pat) (drop (length pat) (c # cs))
      else c # replaceAllFrom pat rep (preceding @ [c]) cs)"

definition replaceAll :: "string \<Rightarrow> string \<Rightarrow> string \<Rightarrow> string" where
  "replaceAll pat rep s = replaceAllFrom pat rep [] s"


section \<open>Template (tools/template.ts)\<close>

text \<open>
  \<open>Template.placeholderRegex\<close> is \<open>/{.+?}/g\<close>: an opening brace, one or more
  characters other than line terminators, as few as possible, and a closing brace.
  \<open>lazyBody\<close> reads \<open>.*?}\<close>: it stops at the first closing brace and fails at a
  line terminator or at the end of the string. It returns the characters read ahead of
  the brace and the rest of the string after it.
\<close>

fun lazyBody :: "string \<Rightarrow> (string \<times> string) option" where
  "lazyBody [] = None"
| "lazyBody (c # cs) =
     (if c = CHR ''}'' then Some ([], cs)
      else if isLineTerminator c then None
      else (case lazyBody cs of None \<Rightarrow> None | Some (b, r) \<Rightarrow> Some (c # b, r)))"

text \<open>The match of the regular expression that starts at the head of the string, if any,
  with the rest of the string after the match.\<close>

fun placeholderAt :: "string \<Rightarrow> (string \<times> string) option" where
  "placeholderAt (c # d # cs) =
     (if c = CHR ''{'' \<and> \<not> isLineTerminator d then
        (case lazyBody cs of
           None \<Rightarrow> None
         | Some (b, r) \<Rightarrow> Some (CHR ''{'' # d # b @ ''}'', r))
      else None)"
| "placeholderAt cs = None"

lemma lazyBody_length: "lazyBody s = Some (b, r) \<Longrightarrow> length r < length s"
  by (induction s arbitrary: b r) (auto split: if_splits option.splits)

lemma placeholderAt_length: "placeholderAt s = Some (m, r) \<Longrightarrow> length r < length s"
  by (cases s rule: placeholderAt.cases)
     (auto split: if_splits option.splits dest: lazyBody_length)

text \<open>\<open>value.matchAll(Template.placeholderRegex)\<close> mapped to the matched texts: the
  matches from left to right, each search resuming after the previous match.\<close>

function matchAllPlaceholders :: "string \<Rightarrow> string list" where
  "matchAllPlaceholders [] = []"
| "matchAllPlaceholders (c # cs) =
     (case placeholderAt (c # cs) of
        Some (m, r) \<Rightarrow> m # matchAllPlaceholders r
      | None \<Rightarrow> matchAllPlaceholders cs)"
  by pat_completeness auto
termination
  by (relation "measure length") (auto dest: placeholderAt_length)

text \<open>
  An object with string keys is the list of its own enumerable properties in the order
  JavaScript enumerates them: the array indices in ascending order first, then the
  other keys in the order they were created. A replacement value (a string, a number
  or a boolean) is held as the string \<open>ToString\<close> gives for it, which is what
  \<open>replaceAll\<close> turns a value that is not a function into.
\<close>

type_synonym replacements = "(string \<times> string) list"

definition isDigit :: "char \<Rightarrow> bool" where
  "isDigit c = (48 \<le> (of_char c :: nat) \<and> (of_char c :: nat) \<le> 57)"

definition digitsValue :: "string \<Rightarrow> nat" where
  "digitsValue ds = foldl (\<lambda>n c. 10 * n + (of_char c - 48)) 0 ds"

definition isArrayIndex :: "string \<Rightarrow> bool" where
  \<comment> \<open>The canonical decimal form of an integer from 0 to 2^32 - 2.\<close>
  "isArrayIndex k =
     (k \<noteq> [] \<and> list_all isDigit k \<and> (hd k = CHR ''0'' \<longrightarrow> k = ''0'')
      \<and> digitsValue k < 4294967295)"

definition propertyOrder :: "(string \<times> 'a) list \<Rightarrow> (string \<times> 'a) list" where
  \<comment> \<open>The enumeration order of an object whose properties were created in the given order.\<close>
  "propertyOrder kvs =
     sort_key (\<lambda>kv. digitsValue (fst kv)) (filter (\<lambda>kv. isArrayIndex (fst kv)) kvs)
       @ filter (\<lambda>kv. \<not> isArrayIndex (fst kv)) kvs"

text \<open>
  \<open>deepMerge\<close> of the Deno standard library (std@0.208.0/collections/deep_merge.ts), on
  records whose values are not objects: a fresh object receives the keys of the first
  record and then the new keys of the second, the key \<open>__proto__\<close> skipped, each with
  the second record's value where the second record has the key.
\<close>

definition deepMerge :: "replacements \<Rightarrow> replacements \<Rightarrow> replacements" where
  "deepMerge record other =
     propertyOrder
       (filter (\<lambda>kv. fst kv \<noteq> ''__proto__'')
          (map (\<lambda>kv. (fst kv, case map_of other (fst kv) of None \<Rightarrow> snd kv | Some b \<Rightarrow> b)) record
           @ filter (\<lambda>kv. fst kv \<notin> fst ` set record) other))"

text \<open>\<open>filterKeys\<close> of the same library (collections/filter_keys.ts).\<close>

definition filterKeys :: "replacements \<Rightarrow> (string \<Rightarrow> bool) \<Rightarrow> replacements" where
  "filterKeys record predicate = filter (\<lambda>kv. predicate (fst kv)) record"

text \<open>
  The operator \<open>in\<close> on a plain object: true for the object's own keys and for the
  names of the members every object inherits from \<open>Object.prototype\<close>.
\<close>

definition objectPrototypeNames :: "string list" where
  "objectPrototypeNames =
     [''constructor'', ''__defineGetter__'', ''__defineSetter__'', ''hasOwnProperty'',
      ''__lookupGetter__'', ''__lookupSetter__'', ''isPrototypeOf'', ''propertyIsEnumerable'',
      ''toString'', ''valueOf'', ''__proto__'', ''toLocaleString'']"

definition hasProperty :: "(string \<times> 'a) list \<Rightarrow> string \<Rightarrow> bool" where
  \<comment> \<open>\<open>key in object\<close>\<close>
  "hasProperty object key = (key \<in> fst ` set object \<or> key \<in> set objectPrototypeNames)"

record Template =
  template_string :: string
  replacements :: replacements

definition new_Template :: "string \<Rightarrow> replacements \<Rightarrow> Template" where
  \<comment> \<open>The constructor; a call without defaults passes the empty object.\<close>
  "new_Template v defaults = \<lparr>template_string = v, replacements = defaults\<rparr>"

definition substituteAll :: "replacements \<Rightarrow> string \<Rightarrow> string" where
  \<comment> \<open>The loop of \<open>#render\<close>: one \<open>replaceAll\<close> per key, in enumeration order.\<close>
  "substituteAll rep s = foldl (\<lambda>endValue kv. replaceAll (''{'' @ fst kv @ ''}'') (snd kv) endValue) s rep"

definition hash_render :: "Template \<Rightarrow> replacements \<Rightarrow> bool \<Rightarrow> string" where
  \<comment> \<open>The private method \<open>#render(replacements, useDefaults)\<close>.\<close>
  "hash_render t reps useDefaults =
     (let rep = (if useDefaults then deepMerge (replacements t) reps else reps)
      in trim (substituteAll rep (template_string t)))"

record RenderErrorCause =
  cause_template :: string
  cause_result :: string
  missingReplacements :: "string list"

record RenderError =
  thrown_message :: string
  thrown_cause :: RenderErrorCause

definition hash_validate :: "Template \<Rightarrow> string \<Rightarrow> RenderError + unit" where
  \<comment> \<open>The private method \<open>#validate(value)\<close>; \<open>Inl\<close> is the error it throws.\<close>
  "hash_validate t v =
     (let placeholders = matchAllPlaceholders v
      in if length placeholders \<noteq> 0 then
           Inl \<lparr>thrown_message = ''Some placeholders haven't been replaced yet'',
                thrown_cause = \<lparr>cause_template = template_string t, cause_result = v,
                                missingReplacements = placeholders\<rparr>\<rparr>
         else Inr ())"

definition render :: "Template \<Rightarrow> replacements \<Rightarrow> RenderError + string" where
  "render t reps =
     (let result = hash_render t reps True
      in case hash_validate t result of Inl e \<Rightarrow> Inl e | Inr _ \<Rightarrow> Inr result)"

definition partialRender :: "Template \<Rightarrow> replacements \<Rightarrow> Template" where
  "partialRender t reps =
     (let nt = hash_render t reps False;
          defaults = filterKeys (replacements t) (\<lambda>k. \<not> hasProperty reps k)
      in new_Template nt defaults)"

text \<open>
  Notions the properties of \<open>Template\<close> are stated with. A string contains a
  placeholder when some part of it is an opening brace, one or more characters none of
  which is a line terminator, and a closing brace: the strings the regular expression
  matches somewhere. The name of a placeholder is the text between its outer braces.
\<close>

definition containsPlaceholder :: "string \<Rightarrow> bool" where
  "containsPlaceholder s =
     (\<exists>pre body post. s = pre @ ''{'' @ body @ ''}'' @ post \<and> body \<noteq> []
        \<and> (\<forall>c\<in>set body. \<not> isLineTerminator c))"

definition startsOrEndsWithWhiteSpace :: "string \<Rightarrow> bool" where
  "startsOrEndsWithWhiteSpace s = (s \<noteq> [] \<and> (isWhiteSpace (hd s) \<or> isWhiteSpace (last s)))"

definition braceFree :: "string \<Rightarrow> bool" where
  "braceFree s = (CHR ''{'' \<notin> set s \<and> CHR ''}'' \<notin> set s)"

definition placeholderName :: "string \<Rightarrow> string" where
  "placeholderName p = butlast (tl p)"

section \<open>Logger (tools/logger.ts)\<close>

subsection \<open>LoggerConfig\<close>

datatype SeverityName = Silent | Debug | Informational | Warning | Error

definition SeverityLevel :: "SeverityName \<Rightarrow> nat" where
  "SeverityLevel n =
     (case n of Silent \<Rightarrow> 0 | Debug \<Rightarrow> 1 | Informational \<Rightarrow> 2 | Warning \<Rightarrow> 3 | Error \<Rightarrow> 4)"

definition SeverityNameByLevel :: "nat \<Rightarrow> SeverityName option" where
  \<comment> \<open>The table from levels back to names; it has no entry for other numbers.\<close>
  "SeverityNameByLevel l =
     (if l = 0 then Some Silent else if l = 1 then Some Debug
      else if l = 2 then Some Informational else if l = 3 then Some Warning
      else if l = 4 then Some Error else None)"

datatype LevelName = Level_Error | Level_Warn | Level_Info | Level_Http | Level_Debug

definition levelNameValue :: "LevelName \<Rightarrow> string" where
  \<comment> \<open>The strings of the \<open>LevelName\<close> table.\<close>
  "levelNameValue l =
     (case l of Level_Error \<Rightarrow> ''ERROR'' | Level_Warn \<Rightarrow> ''WARN'' | Level_Info \<Rightarrow> ''INFO''
      | Level_Http \<Rightarrow> ''HTTP'' | Level_Debug \<Rightarrow> ''DEBUG'')"

datatype Mode = Pretty | Json

text \<open>
  A number is a finite double, that is a rational number; no arithmetic is done on the
  numbers of a log record, they are stored and tested against zero. NaN and the
  infinities are not modelled.
\<close>

type_synonym number = rat

text \<open>
  The settings a logger holds after \<open>SettingsSchema.parse\<close>, which has filled in the
  defaults. The transports are functions with an effect and no result: a call of one
  is recorded as an event, the severity name it is stored under and the text it got.
\<close>

record Settings =
  severity :: SeverityName
  application :: string
  environment :: string
  module :: "string option"
  settings_id :: "string option"
  version :: "string option"
  padding :: int
  mode :: Mode
  prettyTemplate :: string
  prettyErrorTemplate :: string
  prettyHttpTemplate :: string

type_synonym transport_call = "SeverityName \<times> string"

subsection \<open>Values\<close>

text \<open>
  The values a property of a log record can hold, as far as the logger looks at them:
  it tests them for truthiness and turns them into text.
\<close>

datatype jsvalue =
    JUndefined
  | JNull
  | JBoolean bool
  | JNumber number
  | JString string
  | JArray "jsvalue list"
  | JObject "(string \<times> jsvalue) list"
  | JFunction string

fun truthy :: "jsvalue \<Rightarrow> bool" where
  "truthy JUndefined = False"
| "truthy JNull = False"
| "truthy (JBoolean b) = b"
| "truthy (JNumber n) = (n \<noteq> 0)"
| "truthy (JString s) = (s \<noteq> [])"
| "truthy (JArray xs) = True"
| "truthy (JObject kvs) = True"
| "truthy (JFunction f) = True"

subsection \<open>Call sites (tools/callsites.ts)\<close>

text \<open>
  The fields of an \<open>ExpandedCallSite\<close> the logger reads, with the types the logger
  casts them to (\<open>AllNonNullable\<close>). \<open>callsites(error)\<close> returns the structured stack
  of the error it is given, and the stack of the call itself when it is given none; both
  stacks are inputs of the model.
\<close>

record ExpandedCallSite =
  fileName :: string
  lineNumber :: number
  columnNumber :: number

subsection \<open>LogObject\<close>

text \<open>
  The argument types of the \<open>LogObject\<close> namespace. \<open>isErrorInstance\<close> is the result
  of \<open>error instanceof Error\<close> and \<open>errorCallsites\<close> the stack \<open>callsites\<close> reads from
  the error. The \<open>get\<close> of a request or a response looks a header up.
\<close>

record LogError =
  err_code :: "string option"
  err_id :: "string option"
  err_message :: "string option"
  err_name :: "string option"
  err_stack :: "string option"
  err_title :: "string option"
  isErrorInstance :: bool
  errorCallsites :: "ExpandedCallSite list"

record Request =
  httpVersion :: "string option"
  req_id :: "string option"
  req_method :: "string option"
  req_get :: "string \<Rightarrow> string option"
  originalUrl :: "string option"

record Response =
  duration :: "number option"
  res_get :: "string \<Rightarrow> string option"
  statusCode :: "number option"

text \<open>
  The record itself: one field per public property of the class, in the order of the
  class. A property that may be undefined is an \<open>option\<close>. The timestamp and
  \<open>process.args\<close> come from the clock and the process, and are inputs of the model.
\<close>

record LogObject =
  at_timestamp :: string
  log_level :: string
  message :: string
  data :: "jsvalue list option"
  labels :: "(string \<times> string) list option"
  tags :: "string list option"
  log_logger :: string
  log_origin_file_column :: number
  log_origin_file_line :: number
  log_origin_file_name :: string
  log_origin_file_path :: string
  error_code :: "string option"
  error_id :: "string option"
  error_message :: "string option"
  error_stack_trace :: "ExpandedCallSite list option"
  error_type :: "string option"
  service_name :: "string option"
  service_version :: "string option"
  service_environment :: "string option"
  service_id :: "string option"
  process_args :: "string list"
  event_duration :: "number option"
  http_version :: "string option"
  http_request_id :: "string option"
  http_request_method :: "string option"
  http_request_mime_type :: "string option"
  http_request_referrer :: "string option"
  http_request_url_original :: "string option"
  http_response_mime_type :: "string option"
  http_response_status_code :: "number option"

text \<open>The clock (the formatted current time) and the process arguments.\<close>

record Runtime =
  now :: string
  denoArgs :: "string list"

definition initialLogObject :: "Runtime \<Rightarrow> LogObject" where
  \<comment> \<open>The field initialisers of the class.\<close>
  "initialLogObject rt =
     \<lparr>at_timestamp = now rt, log_level = '''', message = '''', data = None, labels = None,
      tags = None, log_logger = ''unknown'', log_origin_file_column = 0,
      log_origin_file_line = 0, log_origin_file_name = '''', log_origin_file_path = '''',
      error_code = None, error_id = None, error_message = None, error_stack_trace = None,
      error_type = None, service_name = None, service_version = None,
      service_environment = None, service_id = None, process_args = denoArgs rt,
      event_duration = None, http_version = None, http_request_id = None,
      http_request_method = None, http_request_mime_type = None,
      http_request_referrer = None, http_request_url_original = None,
      http_response_mime_type = None, http_response_status_code = None\<rparr>"

definition setBaseFields ::
  "string \<Rightarrow> jsvalue list option \<Rightarrow> (string \<times> string) list option \<Rightarrow> string list option
     \<Rightarrow> LogObject \<Rightarrow> LogObject" where
  "setBaseFields msg dat lbls tgs this =
     this\<lparr>message := msg, data := dat, labels := lbls, tags := tgs\<rparr>"

definition setErrorFields :: "LogError \<Rightarrow> LogObject \<Rightarrow> LogObject" where
  "setErrorFields error this =
     (let this1 = this\<lparr>error_message := err_message error, error_code := err_code error,
                       error_id := err_id error, error_type := err_name error\<rparr>
      in if isErrorInstance error then this1\<lparr>error_stack_trace := Some (errorCallsites error)\<rparr>
         else this1)"

definition double_0_1 :: number where
  \<comment> \<open>The double the literal \<open>0.1\<close> denotes.\<close>
  "double_0_1 = 3602879701896397 / 36028797018963968"

definition setRequestFields :: "Request \<Rightarrow> LogObject \<Rightarrow> LogObject" where
  "setRequestFields request this =
     this\<lparr>http_version := httpVersion request, http_request_id := req_id request,
          http_request_method := req_method request,
          http_request_mime_type := req_get request ''content-type'',
          http_request_referrer := req_get request ''referrer'',
          http_request_url_original := originalUrl request\<rparr>"

definition setResponseFields :: "Response \<Rightarrow> LogObject \<Rightarrow> LogObject" where
  "setResponseFields response this =
     this\<lparr>event_duration :=
            Some (case duration response of None \<Rightarrow> double_0_1
                  | Some d \<Rightarrow> if d \<noteq> 0 then d else double_0_1),
          http_response_mime_type := res_get response ''content-type'',
          http_response_status_code := statusCode response\<rparr>"

definition setServiceFields ::
  "string \<Rightarrow> string option \<Rightarrow> string option \<Rightarrow> string option \<Rightarrow> LogObject \<Rightarrow> LogObject" where
  "setServiceFields env name ver ident this =
     this\<lparr>service_environment := Some env, service_name := name, service_version := ver,
          service_id := ident\<rparr>"

definition new_LogObject ::
  "Runtime \<Rightarrow> LogError option \<Rightarrow> Request option \<Rightarrow> Response option \<Rightarrow> LogObject" where
  \<comment> \<open>The constructor. \<open>None\<close> is an argument that is undefined; an object is truthy.\<close>
  "new_LogObject rt error request response =
     (let this0 = initialLogObject rt;
          this1 = (case error of None \<Rightarrow> this0 | Some e \<Rightarrow> setErrorFields e this0);
          this2 = (case request of None \<Rightarrow> this1 | Some r \<Rightarrow> setRequestFields r this1)
      in case response of None \<Rightarrow> this2 | Some r \<Rightarrow> setResponseFields r this2)"

datatype thrown = TypeError string

definition afterLastSlash :: "string \<Rightarrow> string" where
  \<comment> \<open>\<open>s.substring(s.lastIndexOf("/") + 1)\<close>\<close>
  "afterLastSlash s = rev (takeWhile (\<lambda>c. c \<noteq> CHR ''/'') (rev s))"

definition callsites :: "ExpandedCallSite list \<Rightarrow> LogError option \<Rightarrow> ExpandedCallSite list" where
  \<comment> \<open>\<open>callsites(error)\<close>; \<open>here\<close> is the stack of a fresh \<open>new Error()\<close>.\<close>
  "callsites here error = (case error of None \<Rightarrow> here | Some e \<Rightarrow> errorCallsites e)"

definition originStack :: "ExpandedCallSite list \<Rightarrow> LogError option \<Rightarrow> ExpandedCallSite list" where
  \<comment> \<open>\<open>callsites(this.#error instanceof Error ? this.#error : undefined)\<close>\<close>
  "originStack here error =
     callsites here
       (case error of None \<Rightarrow> None | Some e \<Rightarrow> if isErrorInstance e then Some e else None)"

definition setLogFields ::
  "ExpandedCallSite list \<Rightarrow> LogError option \<Rightarrow> LevelName \<Rightarrow> string \<Rightarrow> LogObject
     \<Rightarrow> thrown + LogObject" where
  \<comment> \<open>\<open>error\<close> is the private field \<open>#error\<close> the constructor stored. Reading a
      property of \<open>cs[cs.length - 1]\<close> throws a TypeError when the stack is empty.\<close>
  "setLogFields here error level logger this =
     (let cs = originStack here error
      in if cs = [] then Inl (TypeError ''Cannot read properties of undefined'')
         else let origin = last cs
              in Inr (this\<lparr>log_level := levelNameValue level, log_logger := logger,
                          log_origin_file_column := columnNumber origin,
                          log_origin_file_line := lineNumber origin,
                          log_origin_file_name := afterLastSlash (fileName origin),
                          log_origin_file_path := fileName origin\<rparr>))"

subsection \<open>BaseLogger\<close>

record LogOptions =
  opt_message :: string
  opt_args :: "jsvalue list option"
  opt_error :: "LogError option"
  opt_request :: "Request option"
  opt_response :: "Response option"

record BaseLogger =
  settings :: Settings
  severityLevel :: nat


definition isSilentMode :: "BaseLogger \<Rightarrow> nat \<Rightarrow> bool" where
  "isSilentMode this sev =
     (if severity (settings this) = Silent then True else sev < severityLevel this)"

definition loggerName :: "Settings \<Rightarrow> string" where
  \<comment> \<open>The first lines of \<open>log\<close>: an empty module is falsy and adds nothing.\<close>
  "loggerName s =
     (case module s of None \<Rightarrow> application s
      | Some m \<Rightarrow> if m \<noteq> [] then application s @ '':'' @ m else application s)"

text \<open>
  \<open>BaseLogger.log\<close>. \<open>format\<close> is the abstract method of the class, a function from
  records to strings as its signature says. The result is the record the call returns
  and the transport calls it made; \<open>Inl\<close> is an exception.
\<close>

definition log ::
  "(LogObject \<Rightarrow> string) \<Rightarrow> Runtime \<Rightarrow> ExpandedCallSite list \<Rightarrow> BaseLogger \<Rightarrow> nat \<Rightarrow> LevelName
     \<Rightarrow> LogOptions \<Rightarrow> thrown + (LogObject \<times> transport_call list)" where
  "log format rt here this sev level options =
     (let s = settings this;
          name = loggerName s;
          built = new_LogObject rt (opt_error options) (opt_request options) (opt_response options);
          based = setBaseFields (opt_message options) (opt_args options) None None built
      in case setLogFields here (opt_error options) level name based of
           Inl e \<Rightarrow> Inl e
         | Inr logged \<Rightarrow>
             let logObject = setServiceFields (environment s) (Some (application s))
                               (version s) (settings_id s) logged
             in if isSilentMode this sev then Inr (logObject, [])
                else (case SeverityNameByLevel sev of
                        None \<Rightarrow> Inl (TypeError ''transport is not a function'')
                      | Some n \<Rightarrow> Inr (logObject, [(n, format logObject)])))"


definition log_info ::
  "(LogObject \<Rightarrow> string) \<Rightarrow> Runtime \<Rightarrow> ExpandedCallSite list \<Rightarrow> BaseLogger \<Rightarrow> string
     \<Rightarrow> jsvalue list \<Rightarrow> thrown + (LogObject \<times> transport_call list)" where
  "log_info format rt here this msg args =
     log format rt here this (SeverityLevel Informational) Level_Info
       \<lparr>opt_message = msg, opt_args = Some args, opt_error = None, opt_request = None,
        opt_response = None\<rparr>"

definition log_http ::
  "(LogObject \<Rightarrow> string) \<Rightarrow> Runtime \<Rightarrow> ExpandedCallSite list \<Rightarrow> BaseLogger \<Rightarrow> Request
     \<Rightarrow> Response \<Rightarrow> thrown + (LogObject \<times> transport_call list)" where
  "log_http format rt here this request response =
     log format rt here this (SeverityLevel Informational) Level_Http
       \<lparr>opt_message = '''', opt_args = None, opt_error = None, opt_request = Some request,
        opt_response = Some response\<rparr>"

definition log_warn ::
  "(LogObject \<Rightarrow> string) \<Rightarrow> Runtime \<Rightarrow> ExpandedCallSite list \<Rightarrow> BaseLogger \<Rightarrow> string
     \<Rightarrow> jsvalue list \<Rightarrow> thrown + (LogObject \<times> transport_call list)" where
  "log_warn format rt here this msg args =
     log format rt here this (SeverityLevel Warning) Level_Warn
       \<lparr>opt_message = msg, opt_args = Some args, opt_error = None, opt_request = None,
        opt_response = None\<rparr>"

definition log_error ::
  "(LogObject \<Rightarrow> string) \<Rightarrow> Runtime \<Rightarrow> ExpandedCallSite list \<Rightarrow> BaseLogger \<Rightarrow> string
     \<Rightarrow> jsvalue list \<Rightarrow> LogError option \<Rightarrow> thrown + (LogObject \<times> transport_call list)" where
  "log_error format rt here this msg args error =
     log format rt here this (SeverityLevel Error) Level_Error
       \<lparr>opt_message = msg, opt_args = Some args, opt_error = error, opt_request = None,
        opt_response = None\<rparr>"

text \<open>
  The record a call of \<open>log\<close> builds, written out as one expression: the constructor
  followed by the three setters. \<open>log\<close> returns it whenever the stack it reads the
  origin from is not empty.
\<close>

definition builtLogObject ::
  "Runtime \<Rightarrow> ExpandedCallSite list \<Rightarrow> Settings \<Rightarrow> LevelName \<Rightarrow> LogOptions \<Rightarrow> LogObject" where
  "builtLogObject rt here s level options =
     (setServiceFields (environment s) (Some (application s)) (version s) (settings_id s)
        ((setBaseFields (opt_message options) (opt_args options) None None
            (new_LogObject rt (opt_error options) (opt_request options) (opt_response options)))
          \<lparr>log_level := levelNameValue level, log_logger := loggerName s,
           log_origin_file_column := columnNumber (last (originStack here (opt_error options))),
           log_origin_file_line := lineNumber (last (originStack here (opt_error options))),
           log_origin_file_name := afterLastSlash (fileName (last (originStack here (opt_error options)))),
           log_origin_file_path := fileName (last (originStack here (opt_error options)))\<rparr>))"


subsection \<open>PrettyLogger\<close>

text \<open>
  What \<open>substitutions[key]\<close> reads when \<open>substitutions\<close> is a log record: the public
  fields of the record first, then the methods of the class and the members every
  object inherits. The private fields have no string key.
\<close>

definition optionalString :: "string option \<Rightarrow> jsvalue" where
  "optionalString v = (case v of None \<Rightarrow> JUndefined | Some s \<Rightarrow> JString s)"

definition optionalNumber :: "number option \<Rightarrow> jsvalue" where
  "optionalNumber v = (case v of None \<Rightarrow> JUndefined | Some n \<Rightarrow> JNumber n)"

definition callSiteValue :: "ExpandedCallSite \<Rightarrow> jsvalue" where
  "callSiteValue cs =
     JObject [(''fileName'', JString (fileName cs)), (''lineNumber'', JNumber (lineNumber cs)),
              (''columnNumber'', JNumber (columnNumber cs))]"

definition logObjectFields :: "LogObject \<Rightarrow> (string \<times> jsvalue) list" where
  "logObjectFields l =
     [(''@timestamp'', JString (at_timestamp l)),
      (''log.level'', JString (log_level l)),
      (''message'', JString (message l)),
      (''data'', case data l of None \<Rightarrow> JUndefined | Some d \<Rightarrow> JArray d),
      (''labels'', case labels l of None \<Rightarrow> JUndefined
                   | Some kvs \<Rightarrow> JObject (map (\<lambda>kv. (fst kv, JString (snd kv))) kvs)),
      (''tags'', case tags l of None \<Rightarrow> JUndefined | Some ts \<Rightarrow> JArray (map JString ts)),
      (''log.logger'', JString (log_logger l)),
      (''log.origin.file.column'', JNumber (log_origin_file_column l)),
      (''log.origin.file.line'', JNumber (log_origin_file_line l)),
      (''log.origin.file.name'', JString (log_origin_file_name l)),
      (''log.origin.file.path'', JString (log_origin_file_path l)),
      (''error.code'', optionalString (error_code l)),
      (''error.id'', optionalString (error_id l)),
      (''error.message'', optionalString (error_message l)),
      (''error.stack_trace'', case error_stack_trace l of None \<Rightarrow> JUndefined
                              | Some st \<Rightarrow> JArray (map callSiteValue st)),
      (''error.type'', optionalString (error_type l)),
      (''service.name'', optionalString (service_name l)),
      (''service.version'', optionalString (service_version l)),
      (''service.environment'', optionalString (service_environment l)),
      (''service.id'', optionalString (service_id l)),
      (''process.args'', JArray (map JString (process_args l))),
      (''event.duration'', optionalNumber (event_duration l)),
      (''http.version'', optionalString (http_version l)),
      (''http.request.id'', optionalString (http_request_id l)),
      (''http.request.method'', optionalString (http_request_method l)),
      (''http.request.mime_type'', optionalString (http_request_mime_type l)),
      (''http.request.referrer'', optionalString (http_request_referrer l)),
      (''http.request.url.original'', optionalString (http_request_url_original l)),
      (''http.response.mime_type'', optionalString (http_response_mime_type l)),
      (''http.response.status_code'', optionalNumber (http_response_status_code l))]"

definition inheritedMembers :: "(string \<times> jsvalue) list" where
  \<comment> \<open>The methods of \<open>LogObject\<close>, then the members of \<open>Object.prototype\<close>.\<close>
  "inheritedMembers =
     map (\<lambda>n. (n, JFunction n))
       [''constructor'', ''setBaseFields'', ''setErrorFields'', ''setLogFields'',
        ''setRequestFields'', ''setResponseFields'', ''setServiceFields'']
     @ map (\<lambda>n. (n, if n = ''__proto__'' then JObject [] else JFunction n))
         objectPrototypeNames"

definition logObjectProperty :: "LogObject \<Rightarrow> string \<Rightarrow> jsvalue" where
  "logObjectProperty l key =
     (case map_of (logObjectFields l @ inheritedMembers) key of
        None \<Rightarrow> JUndefined
      | Some v \<Rightarrow> v)"

definition logObjectFieldNames :: "string list" where
  "logObjectFieldNames =
     [''@timestamp'', ''log.level'', ''message'', ''data'', ''labels'', ''tags'', ''log.logger'',
      ''log.origin.file.column'', ''log.origin.file.line'', ''log.origin.file.name'',
      ''log.origin.file.path'', ''error.code'', ''error.id'', ''error.message'',
      ''error.stack_trace'', ''error.type'', ''service.name'', ''service.version'',
      ''service.environment'', ''service.id'', ''process.args'', ''event.duration'',
      ''http.version'', ''http.request.id'', ''http.request.method'',
      ''http.request.mime_type'', ''http.request.referrer'', ''http.request.url.original'',
      ''http.response.mime_type'', ''http.response.status_code'']"

text \<open>
  \<open>PrettyLogger.substitute\<close>: \<open>value.replace(/{(.+?)\}/g, callback)\<close>. The regular
  expression matches what \<open>Template.placeholderRegex\<close> matches. The callback strips the
  first opening and the first closing brace from the match to get the key, and returns
  the value under that key when it is truthy and the match itself otherwise;
  \<open>replace\<close> inserts the text of what the callback returns (\<open>toStr\<close>, the \<open>ToString\<close>
  of the runtime) as it is.
\<close>

definition substitutionKey :: "string \<Rightarrow> string" where
  "substitutionKey m = remove1 (CHR ''}'') (remove1 (CHR ''{'') m)"

definition substitutionFor :: "(jsvalue \<Rightarrow> string) \<Rightarrow> (string \<Rightarrow> jsvalue) \<Rightarrow> string \<Rightarrow> string" where
  "substitutionFor toStr substitutions m =
     (let substitution = substitutions (substitutionKey m)
      in if truthy substitution then toStr substitution else m)"

function substitute :: "(jsvalue \<Rightarrow> string) \<Rightarrow> (string \<Rightarrow> jsvalue) \<Rightarrow> string \<Rightarrow> string" where
  "substitute toStr substitutions [] = []"
| "substitute toStr substitutions (c # cs) =
     (case placeholderAt (c # cs) of
        Some (m, r) \<Rightarrow> substitutionFor toStr substitutions m @ substitute toStr substitutions r
      | None \<Rightarrow> c # substitute toStr substitutions cs)"
  by pat_completeness auto
termination
  by (relation "measure (\<lambda>(t, s, v). length v)") (auto dest: placeholderAt_length)

definition joinWith :: "string \<Rightarrow> string list \<Rightarrow> string" where
  \<comment> \<open>\<open>Array.prototype.join\<close>\<close>
  "joinWith sep xs = (case xs of [] \<Rightarrow> [] | y # ys \<Rightarrow> foldl (\<lambda>acc x. acc @ sep @ x) y ys)"

text \<open>
  \<open>PrettyLogger.applyTemplate\<close>. \<open>inspect\<close> is \<open>Deno.inspect\<close> under the settings'
  options and \<open>prettifyStack\<close> the method of that name, which colours one call site
  with the \<open>ansi-colors\<close> library.
\<close>

definition applyTemplate ::
  "(jsvalue \<Rightarrow> string) \<Rightarrow> (ExpandedCallSite \<Rightarrow> string) \<Rightarrow> (jsvalue \<Rightarrow> string) \<Rightarrow> string
     \<Rightarrow> LogObject \<Rightarrow> string" where
  "applyTemplate inspect prettifyStack toStr template l =
     (let args = (case data l of None \<Rightarrow> [] | Some d \<Rightarrow> joinWith [CHR 0x0A] (map inspect d));
          stack = (case error_stack_trace l of None \<Rightarrow> []
                   | Some st \<Rightarrow> joinWith [CHR 0x0A] (map prettifyStack st));
          template1 = (if args \<noteq> [] then replaceAll ''{data}'' (CHR 0x0A # args) template
                       else template);
          template2 = (if stack \<noteq> []
                       then replaceAll ''{error.stack_trace}'' (CHR 0x0A # stack) template1
                       else template1)
      in substitute toStr (logObjectProperty l) template2)"

section \<open>Git (tools/git.ts)\<close>

subsection \<open>Parsing the output of \<open>git log\<close>\<close>

text \<open>
  \<open>String.prototype.split\<close> with a string separator: the string is cut at the
  occurrences of the separator, found from left to right, each search resuming after
  the previous occurrence; a string without the separator is one piece. \<open>piece\<close>
  holds the characters read since the last cut. (With the empty separator JavaScript
  cuts between all code units; the separator of this program is not empty, and the
  empty one finds no occurrence here.)
\<close>

fun splitFrom :: "string \<Rightarrow> string \<Rightarrow> string \<Rightarrow> string list" where
  "splitFrom sep piece [] = [piece]"
| "splitFrom sep piece (c # cs) =
     (if sep \<noteq> [] \<and> prefix sep (c # cs)
      then piece # splitFrom sep [] (drop (length sep) (c # cs))
      else splitFrom sep (piece @ [c]) cs)"

definition split :: "string \<Rightarrow> string \<Rightarrow> string list" where
  \<comment> \<open>\<open>s.split(sep)\<close>\<close>
  "split sep s = splitFrom sep [] s"

definition logDelimiter :: string where
  \<comment> \<open>The literal \<open>{"hash"\<close>.\<close>
  "logDelimiter = CHR ''{'' # CHR 0x22 # ''hash'' @ [CHR 0x22]"

definition rawCommits :: "string \<Rightarrow> string list" where
  \<comment> \<open>The first statement of \<open>#parseLogOutput\<close>: split, \<open>filter(Boolean)\<close>, which
      drops the empty pieces, and the delimiter put back in front of each piece.\<close>
  "rawCommits output =
     map (\<lambda>v. logDelimiter @ v) (filter (\<lambda>v. v \<noteq> []) (split logDelimiter output))"

text \<open>
  A \<open>map\<close> whose callback may throw: the elements are handled in order and the first
  exception ends the call.
\<close>

fun mapThrowing :: "('a \<Rightarrow> 'e + 'b) \<Rightarrow> 'a list \<Rightarrow> 'e + 'b list" where
  "mapThrowing f [] = Inr []"
| "mapThrowing f (x # xs) =
     (case f x of
        Inl e \<Rightarrow> Inl e
      | Inr y \<Rightarrow> (case mapThrowing f xs of Inl e \<Rightarrow> Inl e | Inr ys \<Rightarrow> Inr (y # ys)))"

text \<open>
  \<open>#parseLogOutput\<close>. \<open>parseCommit\<close> stands for \<open>CommitSchema.parse(JSON.parse(c))\<close>:
  the JSON parser and the schema validator of the zod library, either of which may
  throw.
\<close>

definition parseLogOutput :: "(string \<Rightarrow> 'e + 'c) \<Rightarrow> string \<Rightarrow> 'e + 'c list" where
  "parseLogOutput parseCommit output = mapThrowing parseCommit (rawCommits output)"

text \<open>
  \<open>log\<close>: the arguments built from the flags and the revision range go to the \<open>git\<close>
  subprocess, whose captured standard output (or the exception of the failed call) is
  the input \<open>executed\<close> here.
\<close>

definition git_log :: "(string \<Rightarrow> 'e + 'c) \<Rightarrow> 'e + string \<Rightarrow> 'e + 'c list" where
  "git_log parseCommit executed =
     (case executed of Inl e \<Rightarrow> Inl e | Inr output \<Rightarrow> parseLogOutput parseCommit output)"

text \<open>
  The claim about \<open>log\<close> in its own words, to compare the code with: every piece of the
  split gets the delimiter back, the empty ones too.
\<close>

definition rawCommits_of_every_piece :: "string \<Rightarrow> string list" where
  "rawCommits_of_every_piece output = map (\<lambda>v. logDelimiter @ v) (split logDelimiter output)"

subsection \<open>The timestamp of a commit\<close>

text \<open>
  A Number is a double: not a number, an infinity, or a finite value, which is kept
  here as the rational number it denotes. Negative zero is the same zero here: the
  two differ in their sign only, which neither the product \<open>* 1000\<close> of a zero nor
  the time value of a \<open>Date\<close> keeps apart.
\<close>

datatype jsnumber = NaN | Finite rat | PlusInfinity | MinusInfinity

text \<open>
  The Number value for a real number: the nearest double, the one with the even
  significand when two are as near. A double of magnitude at least \<open>2^-1022\<close> is a
  53 bit integer times a power of two (\<open>quantum\<close>, the distance between the doubles
  around); below that the doubles are the multiples of \<open>2^-1074\<close>. What rounds to
  \<open>2^1024\<close> or more is infinite. \<open>exponentOf a\<close> is the largest \<open>e\<close> with
  \<open>2^e \<le> a\<close>, for a positive \<open>a\<close>.
\<close>

function floorLog2 :: "int \<Rightarrow> nat" where
  "floorLog2 n = (if n < 2 then 0 else Suc (floorLog2 (n div 2)))"
  by pat_completeness auto

termination floorLog2
  by (relation "measure nat") auto

definition ceilingLog2 :: "int \<Rightarrow> nat" where
  "ceilingLog2 n = (if n < 2 then 0 else Suc (floorLog2 (n - 1)))"

definition powerOf :: "rat \<Rightarrow> int \<Rightarrow> rat" where
  "powerOf b k = (if 0 \<le> k then b ^ nat k else 1 / b ^ nat (- k))"

definition exponentOf :: "rat \<Rightarrow> int" where
  "exponentOf a =
     (if 1 \<le> a then int (floorLog2 \<lfloor>a\<rfloor>) else - int (ceilingLog2 \<lceil>1 / a\<rceil>))"

definition roundHalfEven :: "rat \<Rightarrow> int" where
  "roundHalfEven x =
     (let f = \<lfloor>x\<rfloor>; r = x - of_int f
      in if r < 1 / 2 then f else if 1 / 2 < r then f + 1 else if even f then f else f + 1)"

definition toDouble :: "rat \<Rightarrow> jsnumber" where
  "toDouble x =
     (if x = 0 then Finite 0
      else
        (let a = \<bar>x\<bar>; e = max (exponentOf a) (- 1022); quantum = powerOf 2 (e - 52);
             r = of_int (roundHalfEven (a / quantum)) * quantum
         in if powerOf 2 1024 \<le> r then (if x < 0 then MinusInfinity else PlusInfinity)
            else Finite (if x < 0 then - r else r)))"

text \<open>
  \<open>Number(date)\<close> for a string (\<open>StringToNumber\<close>). White space trimmed, the empty
  string is zero; an unsigned binary, octal or hexadecimal integer literal, or a
  decimal literal with an optional sign (digits with an optional fraction and an
  optional exponent, or \<open>Infinity\<close>), is the double nearest to the number it denotes;
  every other string is not a number. (The language lets an implementation ignore the
  digits after the twentieth significant one; V8, which runs this program, rounds the
  number as written.)
\<close>

definition isHexDigit :: "char \<Rightarrow> bool" where
  "isHexDigit c =
     (isDigit c \<or> (97 \<le> (of_char c :: nat) \<and> (of_char c :: nat) \<le> 102)
      \<or> (65 \<le> (of_char c :: nat) \<and> (of_char c :: nat) \<le> 70))"

definition isOctalDigit :: "char \<Rightarrow> bool" where
  "isOctalDigit c = (48 \<le> (of_char c :: nat) \<and> (of_char c :: nat) \<le> 55)"

definition isBinaryDigit :: "char \<Rightarrow> bool" where
  "isBinaryDigit c = (c = CHR ''0'' \<or> c = CHR ''1'')"

definition isDecimalDigits :: "string \<Rightarrow> bool" where
  "isDecimalDigits s = (s \<noteq> [] \<and> list_all isDigit s)"

definition stripSign :: "string \<Rightarrow> string" where
  "stripSign s = (case s of c # cs \<Rightarrow> if c = CHR ''+'' \<or> c = CHR ''-'' then cs else s | [] \<Rightarrow> [])"

definition isExponentPart :: "string \<Rightarrow> bool" where
  \<comment> \<open>\<open>e\<close> or \<open>E\<close>, then digits with an optional sign.\<close>
  "isExponentPart s =
     (case s of c # cs \<Rightarrow> (c = CHR ''e'' \<or> c = CHR ''E'') \<and> isDecimalDigits (stripSign cs)
      | [] \<Rightarrow> False)"

definition isUnsignedDecimal :: "string \<Rightarrow> bool" where
  \<comment> \<open>\<open>StrUnsignedDecimalLiteral\<close> other than \<open>Infinity\<close>.\<close>
  "isUnsignedDecimal s =
     (let whole = takeWhile isDigit s; rest = dropWhile isDigit s
      in case rest of
           [] \<Rightarrow> whole \<noteq> []
         | c # cs \<Rightarrow>
             if c = CHR ''.'' then
               (let frac = takeWhile isDigit cs; ex = dropWhile isDigit cs
                in (whole \<noteq> [] \<or> frac \<noteq> []) \<and> (ex = [] \<or> isExponentPart ex))
             else whole \<noteq> [] \<and> isExponentPart rest)"

definition isNonDecimalInteger :: "string \<Rightarrow> bool" where
  "isNonDecimalInteger s =
     (case s of
        z # x # ds \<Rightarrow>
          z = CHR ''0'' \<and> ds \<noteq> []
          \<and> ((x = CHR ''b'' \<or> x = CHR ''B'') \<and> list_all isBinaryDigit ds
             \<or> (x = CHR ''o'' \<or> x = CHR ''O'') \<and> list_all isOctalDigit ds
             \<or> (x = CHR ''x'' \<or> x = CHR ''X'') \<and> list_all isHexDigit ds)
      | _ \<Rightarrow> False)"

definition hexDigitValue :: "char \<Rightarrow> int" where
  \<comment> \<open>\<open>0\<close> to \<open>9\<close>, \<open>a\<close> to \<open>f\<close> and \<open>A\<close> to \<open>F\<close>.\<close>
  "hexDigitValue c =
     (if isDigit c then of_char c - 48 else if 97 \<le> (of_char c :: nat) then of_char c - 87
      else of_char c - 55)"

definition radixValue :: "int \<Rightarrow> string \<Rightarrow> int" where
  "radixValue radix ds = foldl (\<lambda>n c. radix * n + hexDigitValue c) 0 ds"

definition nonDecimalValue :: "string \<Rightarrow> int" where
  "nonDecimalValue s =
     (case s of
        z # x # ds \<Rightarrow>
          radixValue (if x = CHR ''b'' \<or> x = CHR ''B'' then 2
                      else if x = CHR ''o'' \<or> x = CHR ''O'' then 8 else 16) ds
      | _ \<Rightarrow> 0)"

definition decimalDigitsValue :: "string \<Rightarrow> int" where
  "decimalDigitsValue ds = radixValue 10 ds"

definition exponentValue :: "string \<Rightarrow> int" where
  \<comment> \<open>The exponent an \<open>ExponentPart\<close> denotes; zero when there is none.\<close>
  "exponentValue s =
     (case s of
        c # cs \<Rightarrow>
          if cs \<noteq> [] \<and> hd cs = CHR ''-'' then - decimalDigitsValue (stripSign cs)
          else decimalDigitsValue (stripSign cs)
      | [] \<Rightarrow> 0)"

definition unsignedDecimalValue :: "string \<Rightarrow> rat" where
  "unsignedDecimalValue s =
     (let whole = takeWhile isDigit s; rest = dropWhile isDigit s
      in case rest of
           [] \<Rightarrow> of_int (decimalDigitsValue whole)
         | c # cs \<Rightarrow>
             if c = CHR ''.'' then
               (let frac = takeWhile isDigit cs; ex = dropWhile isDigit cs
                in (of_int (decimalDigitsValue whole) + of_int (decimalDigitsValue frac) / 10 ^ length frac)
                     * powerOf 10 (exponentValue ex))
             else of_int (decimalDigitsValue whole) * powerOf 10 (exponentValue rest))"

definition stringToNumber :: "string \<Rightarrow> jsnumber" where
  "stringToNumber s =
     (let t = trim s; negative = (t \<noteq> [] \<and> hd t = CHR ''-''); u = stripSign t
      in if t = [] then Finite 0
         else if isNonDecimalInteger t then toDouble (of_int (nonDecimalValue t))
         else if u = ''Infinity'' then (if negative then MinusInfinity else PlusInfinity)
         else if isUnsignedDecimal u then
           toDouble (if negative then - unsignedDecimalValue u else unsignedDecimalValue u)
         else NaN)"

text \<open>
  The product of two Numbers (the operator \<open>*\<close>): not a number when an operand is, or
  when zero meets an infinity; infinite, with the sign of the product, when an
  infinity meets anything else; the double nearest to the exact product otherwise.
\<close>

definition isNegative :: "jsnumber \<Rightarrow> bool" where
  "isNegative n = (case n of Finite a \<Rightarrow> a < 0 | MinusInfinity \<Rightarrow> True | _ \<Rightarrow> False)"

definition multiply :: "jsnumber \<Rightarrow> jsnumber \<Rightarrow> jsnumber" where
  "multiply x y =
     (if x = NaN \<or> y = NaN then NaN
      else case (x, y) of
             (Finite a, Finite b) \<Rightarrow> toDouble (a * b)
           | _ \<Rightarrow>
               if x = Finite 0 \<or> y = Finite 0 then NaN
               else if isNegative x = isNegative y then PlusInfinity else MinusInfinity)"

text \<open>
  A \<open>Date\<close> is its time value, the milliseconds since the epoch, or invalid.
  \<open>new Date(number)\<close> clips the number (\<open>TimeClip\<close>): a number that is not finite,
  or lies beyond 8.64e15 milliseconds on either side, gives the invalid date, and any
  other number loses its fraction.
\<close>

datatype date = TimeValue int | InvalidDate

definition toIntegerOrInfinity :: "rat \<Rightarrow> int" where
  \<comment> \<open>On a finite number: the fraction is dropped.\<close>
  "toIntegerOrInfinity t = (if 0 \<le> t then \<lfloor>t\<rfloor> else \<lceil>t\<rceil>)"

definition timeClip :: "jsnumber \<Rightarrow> date" where
  "timeClip time =
     (case time of
        Finite t \<Rightarrow>
          if \<bar>t\<bar> \<le> 8640000000000000 then TimeValue (toIntegerOrInfinity t) else InvalidDate
      | _ \<Rightarrow> InvalidDate)"

text \<open>
  \<open>parseDate\<close> on the string the \<open>timestamp\<close> field of a commit holds (the format
  string of \<open>log\<close> quotes the field). \<open>dateOfString\<close> is \<open>new Date(string)\<close>, whose
  parser is left to the implementation.
\<close>

definition parseDate :: "(string \<Rightarrow> date) \<Rightarrow> string \<Rightarrow> date" where
  "parseDate dateOfString d =
     (let asNumber = stringToNumber d
      in if asNumber \<noteq> NaN then timeClip (multiply asNumber (Finite 1000))
         else dateOfString d)"

text \<open>The \<open>timestamp\<close> field of \<open>CommitSchema\<close>: \<open>z.preprocess(parseDate, z.date())\<close>;
  \<open>z.date()\<close> rejects an invalid date.\<close>

datatype zod_issue = invalid_date

definition timestampSchema :: "(string \<Rightarrow> date) \<Rightarrow> string \<Rightarrow> zod_issue + int" where
  "timestampSchema dateOfString d =
     (case parseDate dateOfString d of
        InvalidDate \<Rightarrow> Inl invalid_date
      | TimeValue t \<Rightarrow> Inr t)"

text \<open>The decimal numeral of a natural number, as \<open>git log --date=unix\<close> prints the
  seconds of a commit.\<close>

function decimalNumeral :: "int \<Rightarrow> string" where
  "decimalNumeral n =
     (if n < 10 then [char_of (48 + n)]
      else decimalNumeral (n div 10) @ [char_of (48 + n mod 10)])"
  by pat_completeness auto

termination decimalNumeral
  by (relation "measure nat") auto

section \<open>The command runner (bin/run.ts)\<close>

text \<open>
  What the runner takes from outside. \<open>walk\<close> is \<open>walkSync\<close> over a directory with
  the runner's options (no directories, names starting with an underscore skipped), read
  to the end: the paths of the entries, or the exception of a listing that fails.
  \<open>toUrl\<close> is the file URL of a path under the working directory, \<open>importModule\<close> the
  dynamic \<open>import()\<close> of a module awaited: its exports by name, or the exception of a
  failed import. \<open>toCliffy\<close> builds a command of the cliffy library from a descriptor
  and \<open>addCommand\<close> is \<open>command.command(name, subcommand)\<close> of that library, which may
  refuse a subcommand. \<open>isMain\<close> is \<open>import.meta.main\<close>.
\<close>

record ('e, 'cmd) Outside =
  walk :: "string \<Rightarrow> 'e + string list"
  toUrl :: "string \<Rightarrow> string"
  importModule :: "string \<Rightarrow> 'e + (string \<times> jsvalue) list"
  toCliffy :: "jsvalue \<Rightarrow> 'cmd"
  addCommand :: "'cmd \<Rightarrow> 'cmd \<Rightarrow> 'e + 'cmd"
  rootCommand :: 'cmd
  BIN_DIR :: string
  isMain :: bool
  processArgs :: "string list"

definition tryCatch :: "(unit \<Rightarrow> 'e + 'a) \<Rightarrow> 'a \<Rightarrow> 'a" where
  \<comment> \<open>tools/try-catch.ts: the value of \<open>fn()\<close>, or the fallback when it throws.\<close>
  "tryCatch fn fallback = (case fn () of Inl e \<Rightarrow> fallback | Inr v \<Rightarrow> v)"

definition getLocalPaths :: "('e, 'cmd) Outside \<Rightarrow> string \<Rightarrow> 'e + string list" where
  \<comment> \<open>tools/filesystem.ts: \<open>Array.from(iterator, getPath)\<close>.\<close>
  "getLocalPaths out directory =
     (case walk out directory of Inl e \<Rightarrow> Inl e | Inr entries \<Rightarrow> Inr (map (toUrl out) entries))"

definition getAllModuleImports :: "('e, 'cmd) Outside \<Rightarrow> string \<Rightarrow> 'e + jsvalue list" where
  \<comment> \<open>tools/filesystem.ts: \<open>Object.values(await import(path))\<close>.\<close>
  "getAllModuleImports out path =
     (case importModule out path of Inl e \<Rightarrow> Inl e | Inr exports \<Rightarrow> Inr (map snd exports))"

definition localPaths :: "('e, 'cmd) Outside \<Rightarrow> string list" where
  "localPaths out = tryCatch (\<lambda>u. getLocalPaths out (BIN_DIR out)) []"

definition defaultPaths :: "string list" where
  "defaultPaths =
     map (\<lambda>p. ''https://cdn.jsdelivr.net/gh/toridoriv/my-dev-toolkit@main/bin/'' @ p)
       [''init-deno.ts'']"

definition isCommandOptions :: "jsvalue \<Rightarrow> bool" where
  \<comment> \<open>\<open>typeof value\<close> is \<open>"object"\<close>, the value is not null, and \<open>name\<close> and
      \<open>description\<close> are \<open>in\<close> it. An array has neither.\<close>
  "isCommandOptions v =
     (case v of
        JObject kvs \<Rightarrow> hasProperty kvs ''name'' \<and> hasProperty kvs ''description''
      | _ \<Rightarrow> False)"

text \<open>
  The subcommands: every path is imported (\<open>Promise.all\<close>; the await throws when an
  import fails, here with the exception of the first path that fails), the exports are
  put in one list, the command descriptors among them are kept and converted.
\<close>

definition subcommands :: "('e, 'cmd) Outside \<Rightarrow> 'e + 'cmd list" where
  "subcommands out =
     (case mapThrowing (getAllModuleImports out) (localPaths out @ defaultPaths) of
        Inl e \<Rightarrow> Inl e
      | Inr imported \<Rightarrow> Inr (map (toCliffy out) (filter isCommandOptions (concat imported))))"

fun registerSubcommands ::
  "('cmd \<Rightarrow> 'cmd \<Rightarrow> 'e + 'cmd) \<Rightarrow> 'cmd \<Rightarrow> 'cmd list \<Rightarrow> 'e + 'cmd" where
  "registerSubcommands add command [] = Inr command"
| "registerSubcommands add command (subcommand # rest) =
     (case add command subcommand of
        Inl e \<Rightarrow> Inl e
      | Inr command' \<Rightarrow> registerSubcommands add command' rest)"

text \<open>
  The module as a whole: the root command with the subcommands registered, and the
  arguments handed to \<open>run.parse\<close> when the module is the main one; \<open>Inl\<close> when the
  module throws before that.
\<close>

record 'cmd Started =
  registered :: 'cmd
  parsed :: "string list option"

definition runModule :: "('e, 'cmd) Outside \<Rightarrow> 'e + 'cmd Started" where
  "runModule out =
     (case subcommands out of
        Inl e \<Rightarrow> Inl e
      | Inr cmds \<Rightarrow>
          (case registerSubcommands (addCommand out) (rootCommand out) cmds of
             Inl e \<Rightarrow> Inl e
           | Inr command \<Rightarrow>
               Inr \<lparr>registered = command,
                    parsed = (if isMain out then Some (processArgs out) else None)\<rparr>))"

text \<open>
  The exports of the default module, bin/init-deno.ts: one default export, the
  descriptor of the \<open>init-deno\<close> command.
\<close>

definition initDenoExports :: "(string \<times> jsvalue) list" where
  "initDenoExports =
     [(''default'',
       JObject [(''name'', JString ''init-deno''),
                (''description'', JString ''Initiates a Deno project.''),
                (''arguments'', JArray [JObject [(''name'', JString ''path''),
                                                 (''type'', JString ''string'')]]),
                (''action'', JFunction ''action'')])]"

section \<open>Properties of Template\<close>

lemma lazyBody_sound:
  "lazyBody s = Some (b, r) \<Longrightarrow> s = b @ ''}'' @ r \<and> (\<forall>c\<in>set b. \<not> isLineTerminator c)"
  by (induction s arbitrary: b r) (auto split: if_splits option.splits)

lemma lazyBody_complete:
  "\<forall>c\<in>set b. \<not> isLineTerminator c \<Longrightarrow> lazyBody (b @ CHR ''}'' # post) \<noteq> None"
  by (induction b) (auto split: option.splits)

lemma placeholderAt_sound:
  "placeholderAt s = Some (m, r) \<Longrightarrow>
     s = m @ r \<and> (\<exists>body. m = ''{'' @ body @ ''}'' \<and> body \<noteq> [] \<and> (\<forall>c\<in>set body. \<not> isLineTerminator c))"
proof (cases s rule: placeholderAt.cases)
  case (1 c d cs)
  assume a: "placeholderAt s = Some (m, r)"
  with 1 obtain b where b: "lazyBody cs = Some (b, r)" "m = CHR ''{'' # d # b @ ''}''"
    "c = CHR ''{''" "\<not> isLineTerminator d"
    by (auto split: if_splits option.splits)
  from lazyBody_sound[OF b(1)] have "cs = b @ ''}'' @ r" "\<forall>c\<in>set b. \<not> isLineTerminator c" by auto
  with b 1 show ?thesis by (intro conjI exI[of _ "d # b"]) auto
qed auto

lemma placeholderAt_complete:
  assumes "body \<noteq> []" "\<forall>c\<in>set body. \<not> isLineTerminator c"
  shows "placeholderAt (''{'' @ body @ ''}'' @ post) \<noteq> None"
proof -
  from assms obtain d b where body: "body = d # b" by (cases body) auto
  with assms have nd: "\<not> isLineTerminator d" and nb: "\<forall>c\<in>set b. \<not> isLineTerminator c" by auto
  from lazyBody_complete[OF nb] have "lazyBody (b @ CHR ''}'' # post) \<noteq> None" .
  then obtain b' r where "lazyBody (b @ CHR ''}'' # post) = Some (b', r)" by auto
  with body nd show ?thesis by simp
qed

lemma matchAll_nonempty_if:
  assumes "body \<noteq> []" "\<forall>c\<in>set body. \<not> isLineTerminator c"
  shows "matchAllPlaceholders (pre @ ''{'' @ body @ ''}'' @ post) \<noteq> []"
proof (induction pre)
  case Nil
  from placeholderAt_complete[OF assms, of post] show ?case
    by (auto split: option.splits)
next
  case (Cons c pre)
  then show ?case by (auto split: option.splits)
qed

lemma matchAll_member:
  "m \<in> set (matchAllPlaceholders s) \<Longrightarrow>
     \<exists>pre post body. s = pre @ m @ post \<and> m = ''{'' @ body @ ''}'' \<and> body \<noteq> []
        \<and> (\<forall>c\<in>set body. \<not> isLineTerminator c)"
proof (induction s rule: matchAllPlaceholders.induct)
  case 1
  then show ?case by simp
next
  case (2 c cs)
  show ?case
  proof (cases "placeholderAt (c # cs)")
    case None
    with 2(1)[OF None] 2(3) obtain pre post body where "cs = pre @ m @ post" "m = ''{'' @ body @ ''}''" "body \<noteq> []"
        "\<forall>c\<in>set body. \<not> isLineTerminator c" by auto
    then have "c # cs = (c # pre) @ m @ post" by simp
    with \<open>m = _\<close> \<open>body \<noteq> []\<close> \<open>\<forall>c\<in>set body. \<not> isLineTerminator c\<close> show ?thesis by blast
  next
    case (Some a)
    then obtain m' r where a: "a = (m', r)" by (cases a)
    from placeholderAt_sound[OF Some[unfolded a]] obtain body' where
      s: "c # cs = m' @ r" "m' = ''{'' @ body' @ ''}''" "body' \<noteq> []" "\<forall>c\<in>set body'. \<not> isLineTerminator c"
      by auto
    from 2(3) Some a have "m = m' \<or> m \<in> set (matchAllPlaceholders r)" by auto
    then show ?thesis
    proof
      assume "m = m'"
      with s have "c # cs = [] @ m @ r" by simp
      with s \<open>m = m'\<close> show ?thesis by blast
    next
      assume "m \<in> set (matchAllPlaceholders r)"
      from 2(2)[OF Some[unfolded a] refl this] obtain pre post body where
        "r = pre @ m @ post" "m = ''{'' @ body @ ''}''" "body \<noteq> []" "\<forall>c\<in>set body. \<not> isLineTerminator c"
        by auto
      with s have "c # cs = (m' @ pre) @ m @ post" by simp
      with \<open>m = ''{'' @ body @ ''}''\<close> \<open>body \<noteq> []\<close> \<open>\<forall>c\<in>set body. \<not> isLineTerminator c\<close> show ?thesis by blast
    qed
  qed
qed

lemma matchAll_empty_iff: "matchAllPlaceholders s = [] \<longleftrightarrow> \<not> containsPlaceholder s"
proof
  assume e: "matchAllPlaceholders s = []"
  show "\<not> containsPlaceholder s"
    unfolding containsPlaceholder_def using matchAll_nonempty_if e by blast
next
  assume n: "\<not> containsPlaceholder s"
  show "matchAllPlaceholders s = []"
  proof (rule ccontr)
    assume "matchAllPlaceholders s \<noteq> []"
    then obtain m where "m \<in> set (matchAllPlaceholders s)" by (cases "matchAllPlaceholders s") auto
    from matchAll_member[OF this] obtain pre post body where
      "s = pre @ m @ post" "m = ''{'' @ body @ ''}''" "body \<noteq> []" "\<forall>c\<in>set body. \<not> isLineTerminator c"
      by blast
    then have "s = pre @ ''{'' @ body @ ''}'' @ post \<and> body \<noteq> [] \<and> (\<forall>c\<in>set body. \<not> isLineTerminator c)"
      by simp
    then have "containsPlaceholder s" unfolding containsPlaceholder_def by blast
    with n show False by simp
  qed
qed

lemma trim_decompose:
  "\<exists>l r. s = l @ trim s @ r \<and> (\<forall>c\<in>set l. isWhiteSpace c) \<and> (\<forall>c\<in>set r. isWhiteSpace c)"
proof -
  let ?a = "dropWhile isWhiteSpace s"
  have 1: "s = takeWhile isWhiteSpace s @ ?a" by simp
  have 2: "rev ?a = takeWhile isWhiteSpace (rev ?a) @ dropWhile isWhiteSpace (rev ?a)" by simp
  then have "?a = rev (dropWhile isWhiteSpace (rev ?a)) @ rev (takeWhile isWhiteSpace (rev ?a))"
    by (metis rev_append rev_rev_ident)
  then have 3: "?a = trim s @ rev (takeWhile isWhiteSpace (rev ?a))" by (simp add: trim_def)
  have "s = takeWhile isWhiteSpace s @ trim s @ rev (takeWhile isWhiteSpace (rev ?a))"
    using 1 3 by metis
  moreover have "\<forall>c\<in>set (takeWhile isWhiteSpace s). isWhiteSpace c"
    by (auto dest: set_takeWhileD)
  moreover have "\<forall>c\<in>set (rev (takeWhile isWhiteSpace (rev ?a))). isWhiteSpace c"
    by (auto dest: set_takeWhileD)
  ultimately show ?thesis by blast
qed

lemma trim_last: "trim s \<noteq> [] \<Longrightarrow> \<not> isWhiteSpace (last (trim s))"
proof -
  assume ne: "trim s \<noteq> []"
  let ?b = "dropWhile isWhiteSpace (rev (dropWhile isWhiteSpace s))"
  from ne have "?b \<noteq> []" by (simp add: trim_def)
  then have "\<not> isWhiteSpace (hd ?b)" by (rule hd_dropWhile)
  moreover have "last (trim s) = hd ?b" using \<open>?b \<noteq> []\<close> by (simp add: trim_def last_rev)
  ultimately show ?thesis by simp
qed

lemma dropWhile_rev_dropWhile_hd:
  assumes "dropWhile P (rev (dropWhile P s)) \<noteq> []"
  shows "hd (rev (dropWhile P (rev (dropWhile P s)))) = hd (dropWhile P s)"
proof -
  let ?a = "dropWhile P s"
  from assms have ane: "?a \<noteq> []" by (cases "dropWhile P s") auto
  have "rev ?a = takeWhile P (rev ?a) @ dropWhile P (rev ?a)" by simp
  then have "?a = rev (dropWhile P (rev ?a)) @ rev (takeWhile P (rev ?a))"
    by (metis rev_append rev_rev_ident)
  then have "hd ?a = hd (rev (dropWhile P (rev ?a)) @ rev (takeWhile P (rev ?a)))" by simp
  also have "\<dots> = hd (rev (dropWhile P (rev ?a)))" proof (rule hd_append2)
    from assms show "rev (dropWhile P (rev ?a)) \<noteq> []" by blast
  qed
  finally show ?thesis by simp
qed

lemma trim_hd: "trim s \<noteq> [] \<Longrightarrow> \<not> isWhiteSpace (hd (trim s))"
proof -
  assume ne: "trim s \<noteq> []"
  then have b: "dropWhile isWhiteSpace (rev (dropWhile isWhiteSpace s)) \<noteq> []" by (simp add: trim_def)
  then have "dropWhile isWhiteSpace s \<noteq> []" by (cases "dropWhile isWhiteSpace s") auto
  then have "\<not> isWhiteSpace (hd (dropWhile isWhiteSpace s))" by (rule hd_dropWhile)
  with dropWhile_rev_dropWhile_hd[OF b] show ?thesis by (simp add: trim_def)
qed

lemma trim_not_surrounded: "\<not> startsOrEndsWithWhiteSpace (trim s)"
  unfolding startsOrEndsWithWhiteSpace_def using trim_hd trim_last by blast

lemma render_cases:
  "render t reps =
     (if matchAllPlaceholders (hash_render t reps True) = [] then Inr (hash_render t reps True)
      else Inl \<lparr>thrown_message = ''Some placeholders haven't been replaced yet'',
                thrown_cause = \<lparr>cause_template = template_string t,
                                cause_result = hash_render t reps True,
                                missingReplacements = matchAllPlaceholders (hash_render t reps True)\<rparr>\<rparr>)"
  by (simp add: render_def hash_validate_def Let_def)

text \<open>
  Claim C4. For every template and every replacement map, \<open>render\<close> returns normally
  exactly when the substituted string contains no placeholder, and it then returns that
  string. When a placeholder remains it throws an error whose cause holds the template's
  own string, the substituted string and the list of the placeholders the regular
  expression finds in it, a list that is then not empty.
\<close>

theorem render_returns_iff_no_placeholder:
  "((\<exists>s. render t reps = Inr s) \<longleftrightarrow> \<not> containsPlaceholder (hash_render t reps True))
   \<and> (\<not> containsPlaceholder (hash_render t reps True) \<longrightarrow>
        render t reps = Inr (hash_render t reps True))
   \<and> (containsPlaceholder (hash_render t reps True) \<longrightarrow>
        matchAllPlaceholders (hash_render t reps True) \<noteq> []
        \<and> render t reps =
            Inl \<lparr>thrown_message = ''Some placeholders haven't been replaced yet'',
                 thrown_cause = \<lparr>cause_template = template_string t,
                                 cause_result = hash_render t reps True,
                                 missingReplacements =
                                   matchAllPlaceholders (hash_render t reps True)\<rparr>\<rparr>)"
  by (simp add: render_cases matchAll_empty_iff)

theorem render_returns_iff_no_placeholder_witness:
  "render (new_Template ''Hello {name}!'' []) [(''name'', ''World'')] = Inr ''Hello World!''
   \<and> \<not> containsPlaceholder ''Hello World!''
   \<and> containsPlaceholder ''Hi {name}!''
   \<and> render (new_Template ''{salute} {name}!'' [(''salute'', ''Hi'')]) []
       = Inl \<lparr>thrown_message = ''Some placeholders haven't been replaced yet'',
              thrown_cause = \<lparr>cause_template = ''{salute} {name}!'', cause_result = ''Hi {name}!'',
                              missingReplacements = [''{name}'']\<rparr>\<rparr>"
proof -
  let ?t1 = "new_Template ''Hello {name}!'' []"
  let ?r1 = "[(''name'', ''World'')]"
  let ?t2 = "new_Template ''{salute} {name}!'' [(''salute'', ''Hi'')]"
  have h1: "hash_render ?t1 ?r1 True = ''Hello World!''" by code_simp
  have e1: "render ?t1 ?r1 = Inr ''Hello World!''" by code_simp
  have h2: "hash_render ?t2 [] True = ''Hi {name}!''" by code_simp
  have e2: "render ?t2 [] = Inl \<lparr>thrown_message = ''Some placeholders haven't been replaced yet'',
              thrown_cause = \<lparr>cause_template = ''{salute} {name}!'', cause_result = ''Hi {name}!'',
                              missingReplacements = [''{name}'']\<rparr>\<rparr>" by code_simp
  from render_returns_iff_no_placeholder[of ?t1 ?r1] e1 h1
  have n1: "\<not> containsPlaceholder ''Hello World!''" by auto
  from render_returns_iff_no_placeholder[of ?t2 "[]"] e2 h2
  have n2: "containsPlaceholder ''Hi {name}!''" by auto
  from e1 n1 n2 e2 show ?thesis by blast
qed

lemma hash_render_trimmed: "\<not> startsOrEndsWithWhiteSpace (hash_render t reps d)"
  by (simp add: hash_render_def Let_def trim_not_surrounded)

text \<open>
  Claim C9. The string \<open>render\<close> returns, and the string of the template
  \<open>partialRender\<close> returns, is the substituted string trimmed: it neither starts nor
  ends with white space. So a template whose string starts or ends with white space is
  never rendered to its own string, and \<open>partialRender\<close> with the empty replacement
  map gives the trimmed template, not the template.
\<close>

theorem render_result_is_trimmed:
  "(render t reps = Inr s \<longrightarrow>
      s = trim (substituteAll (deepMerge (replacements t) reps) (template_string t))
      \<and> \<not> startsOrEndsWithWhiteSpace s)
   \<and> template_string (partialRender t reps) = trim (substituteAll reps (template_string t))
   \<and> \<not> startsOrEndsWithWhiteSpace (template_string (partialRender t reps))
   \<and> (startsOrEndsWithWhiteSpace (template_string t) \<longrightarrow>
        render t reps \<noteq> Inr (template_string t)
        \<and> template_string (partialRender t reps) \<noteq> template_string t)
   \<and> template_string (partialRender t []) = trim (template_string t)"
proof -
  have r: "render t reps = Inr s \<Longrightarrow> s = hash_render t reps True" for s
    by (auto simp: render_cases split: if_splits)
  have p: "template_string (partialRender t reps) = hash_render t reps False"
    by (simp add: partialRender_def new_Template_def Let_def)
  have p0: "template_string (partialRender t []) = trim (template_string t)"
    by (simp add: partialRender_def new_Template_def Let_def hash_render_def substituteAll_def)
  show ?thesis
    using r p p0 hash_render_trimmed[of t reps True] hash_render_trimmed[of t reps False]
    by (auto simp: hash_render_def Let_def)
qed

theorem render_result_is_trimmed_witness:
  "render (new_Template ''  Hello {name}! '' []) [(''name'', ''World'')] = Inr ''Hello World!''
   \<and> \<not> startsOrEndsWithWhiteSpace ''Hello World!''
   \<and> startsOrEndsWithWhiteSpace ''  Hello {name}! ''
   \<and> template_string (partialRender (new_Template ''  Hello {name}! '' []) []) = ''Hello {name}!''
   \<and> template_string (partialRender (new_Template ''  Hello {name}! '' []) [])
        \<noteq> template_string (new_Template ''  Hello {name}! '' [])"
proof -
  let ?t = "new_Template ''  Hello {name}! '' []"
  let ?r = "[(''name'', ''World'')]"
  have e: "render ?t ?r = Inr ''Hello World!''" by code_simp
  have w: "startsOrEndsWithWhiteSpace (template_string ?t)" by code_simp
  have ts: "template_string ?t = ''  Hello {name}! ''" by (simp add: new_Template_def)
  have tr: "trim ''  Hello {name}! '' = ''Hello {name}!''" by code_simp
  from render_result_is_trimmed[of ?t ?r "''Hello World!''"] e
  have 1: "\<not> startsOrEndsWithWhiteSpace ''Hello World!''" by blast
  from render_result_is_trimmed[of ?t "[]" "''x''"] w
  have 2: "template_string (partialRender ?t []) \<noteq> template_string ?t"
    and 3: "template_string (partialRender ?t []) = trim (template_string ?t)" by blast+
  from e 1 w 2 3 ts tr show ?thesis by simp
qed

lemma replaceAllFrom_skip:
  assumes "pat \<noteq> []" "hd pat \<notin> set xs"
  shows "replaceAllFrom pat rep pre (xs @ ys) = xs @ replaceAllFrom pat rep (pre @ xs) ys"
  using assms(2)
proof (induction xs arbitrary: pre)
  case Nil
  then show ?case by simp
next
  case (Cons x xs)
  from Cons.prems assms(1) have "\<not> prefix pat (x # xs @ ys)"
    by (cases pat) auto
  with Cons show ?case by simp
qed

lemma brace_key_prefix_eq:
  assumes "braceFree k" "braceFree n" "prefix (k @ ''}'') (n @ ''}'' @ b)"
  shows "k = n"
  using assms
proof (induction k arbitrary: n)
  case Nil
  then show ?case by (cases n) (auto simp: braceFree_def)
next
  case (Cons c k)
  show ?case
  proof (cases n)
    case Nil
    with Cons.prems show ?thesis by (auto simp: braceFree_def)
  next
    case (Cons d n')
    with Cons.prems have "c = d" "prefix (k @ ''}'') (n' @ ''}'' @ b)" "braceFree k" "braceFree n'"
      by (auto simp: braceFree_def)
    with Cons.IH[of n'] Cons show ?thesis by simp
  qed
qed

lemma no_overlap:
  assumes k: "braceFree k" and n: "braceFree n" and kn: "k \<noteq> n"
    and pre: "prefix (''{'' @ k @ ''}'') (a @ ''{'' @ n @ ''}'' @ b)"
  shows "length (''{'' @ k @ ''}'') \<le> length a"
proof (rule ccontr)
  assume "\<not> length (''{'' @ k @ ''}'') \<le> length a"
  then have lt: "length a < length k + 2" by simp
  show False
  proof (cases a)
    case Nil
    with pre have "prefix (k @ ''}'') (n @ ''}'' @ b)" by simp
    from brace_key_prefix_eq[OF k n this] kn show False by simp
  next
    case (Cons c a')
    let ?pat = "''{'' @ k @ ''}''"
    let ?s = "a @ ''{'' @ n @ ''}'' @ b"
    from pre obtain zs where zs: "?s = ?pat @ zs" by (auto simp: prefix_def)
    have "(?pat @ zs) ! length a = ?pat ! length a" using lt by (subst nth_append) simp
    with zs have "?pat ! length a = ?s ! length a" by simp
    moreover have "?s ! length a = CHR ''{''" by (simp add: nth_append)
    moreover from Cons lt have "?pat ! length a = (k @ ''}'') ! length a'" by simp
    moreover from Cons lt have "(k @ ''}'') ! length a' \<in> set (k @ ''}'')"
      by (intro nth_mem) simp
    ultimately show False using k by (auto simp: braceFree_def)
  qed
qed

lemma replaceAllFrom_keeps_gen:
  assumes pat: "pat \<noteq> []"
    and noov: "\<And>a b. prefix pat (a @ p @ b) \<Longrightarrow> length pat \<le> length a"
    and p: "p \<noteq> []" "hd pat \<notin> set (tl p)"
  shows "\<exists>x y. replaceAllFrom pat rep pre (a @ p @ b) = x @ p @ y"
proof (induction a arbitrary: pre rule: length_induct)
  case (1 a)
  show ?case
  proof (cases a)
    case Nil
    from p obtain c p' where cp: "p = c # p'" by (cases p) auto
    have np: "\<not> prefix pat (c # p' @ b)"
    proof
      assume "prefix pat (c # p' @ b)"
      then have "prefix pat ([] @ p @ b)" by (simp add: cp)
      from noov[OF this] pat show False by simp
    qed
    from p cp have "hd pat \<notin> set p'" by simp
    from replaceAllFrom_skip[OF pat this]
    have sk: "replaceAllFrom pat rep (pre @ [c]) (p' @ b)
            = p' @ replaceAllFrom pat rep ((pre @ [c]) @ p') b" .
    have "replaceAllFrom pat rep pre (c # p' @ b) = c # replaceAllFrom pat rep (pre @ [c]) (p' @ b)"
      using np by (subst replaceAllFrom.simps(2)) simp
    with sk have "replaceAllFrom pat rep pre (a @ p @ b)
            = [] @ p @ replaceAllFrom pat rep ((pre @ [c]) @ p') b"
      by (simp add: Nil cp)
    then show ?thesis by (intro exI)
  next
    case (Cons c a')
    have unf: "replaceAllFrom pat rep pre (c # a' @ p @ b) =
        (if prefix pat (c # a' @ p @ b) then
           getSubstitution pat pre (drop (length pat) (c # a' @ p @ b)) rep
             @ replaceAllFrom pat rep (pre @ pat) (drop (length pat) (c # a' @ p @ b))
         else c # replaceAllFrom pat rep (pre @ [c]) (a' @ p @ b))"
      using pat by (subst replaceAllFrom.simps(2)) simp
    show ?thesis
    proof (cases "prefix pat (c # a' @ p @ b)")
      case True
      then have "prefix pat (a @ p @ b)" by (simp add: Cons)
      from noov[OF this] have le: "length pat \<le> length a" .
      have "c # a' @ p @ b = a @ (p @ b)" by (simp add: Cons)
      then have "drop (length pat) (c # a' @ p @ b) = drop (length pat) (a @ (p @ b))"
        by (rule arg_cong)
      also have "\<dots> = drop (length pat) a @ p @ b" using le by (subst drop_append) simp
      finally have d: "drop (length pat) (c # a' @ p @ b) = drop (length pat) a @ p @ b" .
      from le pat have "length (drop (length pat) a) < length a" using Cons by (cases pat) auto
      with 1 obtain x y where
        "replaceAllFrom pat rep (pre @ pat) (drop (length pat) a @ p @ b) = x @ p @ y"
        by blast
      with True unf d have "replaceAllFrom pat rep pre (a @ p @ b)
          = (getSubstitution pat pre (drop (length pat) a @ p @ b) rep @ x) @ p @ y"
        by (simp add: Cons)
      then show ?thesis by (intro exI)
    next
      case False
      from 1 Cons obtain x y where
        "replaceAllFrom pat rep (pre @ [c]) (a' @ p @ b) = x @ p @ y"
        by (metis length_Cons lessI)
      with False unf have "replaceAllFrom pat rep pre (a @ p @ b) = (c # x) @ p @ y"
        by (simp add: Cons)
      then show ?thesis by (intro exI)
    qed
  qed
qed

lemma replaceAllFrom_keeps:
  assumes k: "braceFree k" and n: "braceFree n" and kn: "k \<noteq> n"
  shows "\<exists>x y. replaceAllFrom (''{'' @ k @ ''}'') rep pre (a @ (''{'' @ n @ ''}'') @ b)
            = x @ (''{'' @ n @ ''}'') @ y"
proof (rule replaceAllFrom_keeps_gen)
  show "''{'' @ k @ ''}'' \<noteq> []" by simp
  show "''{'' @ n @ ''}'' \<noteq> []" by simp
  show "hd (''{'' @ k @ ''}'') \<notin> set (tl (''{'' @ n @ ''}''))"
    using n by (simp add: braceFree_def)
  fix a b
  assume "prefix (''{'' @ k @ ''}'') (a @ (''{'' @ n @ ''}'') @ b)"
  then have "prefix (''{'' @ k @ ''}'') (a @ ''{'' @ n @ ''}'' @ b)" by simp
  from no_overlap[OF k n kn this] show "length (''{'' @ k @ ''}'') \<le> length a" .
qed

lemma replaceAll_keeps:
  assumes "braceFree k" "braceFree n" "k \<noteq> n" "sublist (''{'' @ n @ ''}'') s"
  shows "sublist (''{'' @ n @ ''}'') (replaceAll (''{'' @ k @ ''}'') rep s)"
proof -
  from assms(4) obtain a b where "s = a @ (''{'' @ n @ ''}'') @ b" by (auto simp: sublist_def)
  moreover from replaceAllFrom_keeps[OF assms(1-3), of rep "[]" a b] obtain x y where
    "replaceAllFrom (''{'' @ k @ ''}'') rep [] (a @ (''{'' @ n @ ''}'') @ b) = x @ (''{'' @ n @ ''}'') @ y"
    by blast
  ultimately have "replaceAll (''{'' @ k @ ''}'') rep s = x @ (''{'' @ n @ ''}'') @ y"
    by (simp add: replaceAll_def)
  then show ?thesis unfolding sublist_def by blast
qed

lemma substituteAll_keeps:
  assumes "braceFree n" "\<forall>k\<in>fst ` set reps. braceFree k" "n \<notin> fst ` set reps"
    "sublist (''{'' @ n @ ''}'') s"
  shows "sublist (''{'' @ n @ ''}'') (substituteAll reps s)"
  using assms(2-4) unfolding substituteAll_def
proof (induction reps arbitrary: s)
  case Nil
  then show ?case by simp
next
  case (Cons kv reps)
  from Cons.prems have "braceFree (fst kv)" "fst kv \<noteq> n" by auto
  from replaceAll_keeps[OF this(1) assms(1) this(2) Cons.prems(3)]
  have "sublist (''{'' @ n @ ''}'') (replaceAll (''{'' @ fst kv @ ''}'') (snd kv) s)" .
  with Cons show ?case by simp
qed

lemma dropWhile_keeps:
  assumes "p \<noteq> []" "\<not> P (hd p)"
  shows "\<exists>a'. dropWhile P (a @ p @ b) = a' @ p @ b"
proof (cases "\<forall>x\<in>set a. P x")
  case True
  from assms have "dropWhile P (p @ b) = p @ b" by (cases p) auto
  with True have "dropWhile P (a @ p @ b) = [] @ p @ b" by (simp add: dropWhile_append)
  then show ?thesis by blast
next
  case False
  then have "dropWhile P (a @ p @ b) = dropWhile P a @ p @ b" by (auto simp: dropWhile_append)
  then show ?thesis by blast
qed

lemma trim_keeps:
  assumes "p \<noteq> []" "\<not> isWhiteSpace (hd p)" "\<not> isWhiteSpace (last p)" "sublist p s"
  shows "sublist p (trim s)"
proof -
  from assms(4) obtain a b where s: "s = a @ p @ b" by (auto simp: sublist_def)
  from dropWhile_keeps[of p isWhiteSpace a b] assms(1,2) s
  obtain a' where 1: "dropWhile isWhiteSpace s = a' @ p @ b" by blast
  have "rev p \<noteq> []" "\<not> isWhiteSpace (hd (rev p))" using assms by (auto simp: hd_rev)
  from dropWhile_keeps[of "rev p" isWhiteSpace "rev b" "rev a'"] this obtain b' where
    2: "dropWhile isWhiteSpace (rev b @ rev p @ rev a') = b' @ rev p @ rev a'" by blast
  have "trim s = rev (dropWhile isWhiteSpace (rev b @ rev p @ rev a'))" by (simp add: trim_def 1)
  with 2 have "trim s = a' @ p @ rev b'" by simp
  then show ?thesis by (auto simp: sublist_def)
qed

lemma placeholder_shape:
  assumes "p \<in> set (matchAllPlaceholders s)"
  shows "p = ''{'' @ placeholderName p @ ''}'' \<and> sublist p s"
proof -
  from matchAll_member[OF assms] obtain pre post body where
    "s = pre @ p @ post" "p = ''{'' @ body @ ''}''" by blast
  then show ?thesis by (auto simp: placeholderName_def sublist_def butlast_append)
qed

text \<open>
  Claim C5, amended. \<open>partialRender\<close> substitutes the given replacements only (the
  defaults play no part in the new string). The new template's defaults are the old
  defaults without the keys that are \<open>in\<close> the given replacements: without the keys
  of the replacements, when no default is named like a member every object inherits.
  Every placeholder of the template whose name is not a key of the replacements is still
  part of the new string, provided that its name and the keys of the replacements
  contain no brace.
\<close>

theorem partialRender_keeps_other_placeholders:
  "template_string (partialRender t reps) = trim (substituteAll reps (template_string t))
   \<and> replacements (partialRender t reps)
       = filter (\<lambda>kv. \<not> hasProperty reps (fst kv)) (replacements t)
   \<and> ((\<forall>k\<in>fst ` set (replacements t). k \<notin> set objectPrototypeNames) \<longrightarrow>
        replacements (partialRender t reps)
          = filter (\<lambda>kv. fst kv \<notin> fst ` set reps) (replacements t))
   \<and> (\<forall>p\<in>set (matchAllPlaceholders (template_string t)).
        placeholderName p \<notin> fst ` set reps \<and> braceFree (placeholderName p)
        \<and> (\<forall>k\<in>fst ` set reps. braceFree k)
        \<longrightarrow> sublist p (template_string (partialRender t reps)))"
proof (intro conjI ballI impI)
  show 1: "template_string (partialRender t reps) = trim (substituteAll reps (template_string t))"
    by (simp add: partialRender_def new_Template_def Let_def hash_render_def)
  show 0: "replacements (partialRender t reps)
       = filter (\<lambda>kv. \<not> hasProperty reps (fst kv)) (replacements t)"
    by (simp add: partialRender_def new_Template_def Let_def filterKeys_def)
  {
    assume "\<forall>k\<in>fst ` set (replacements t). k \<notin> set objectPrototypeNames"
    then have "filter (\<lambda>kv. \<not> hasProperty reps (fst kv)) (replacements t)
        = filter (\<lambda>kv. fst kv \<notin> fst ` set reps) (replacements t)"
      by (intro filter_cong refl) (auto simp: hasProperty_def)
    with 0 show "replacements (partialRender t reps)
          = filter (\<lambda>kv. fst kv \<notin> fst ` set reps) (replacements t)" by simp
  }
  fix p
  assume p: "p \<in> set (matchAllPlaceholders (template_string t))"
    and h: "placeholderName p \<notin> fst ` set reps \<and> braceFree (placeholderName p)
        \<and> (\<forall>k\<in>fst ` set reps. braceFree k)"
  let ?n = "placeholderName p"
  from placeholder_shape[OF p] have shape: "p = ''{'' @ ?n @ ''}''" and sub: "sublist p (template_string t)"
    by auto
  from sub shape have "sublist (''{'' @ ?n @ ''}'') (template_string t)" by simp
  from substituteAll_keeps[OF _ _ _ this, of reps] h
  have "sublist (''{'' @ ?n @ ''}'') (substituteAll reps (template_string t))" by blast
  moreover have "''{'' @ ?n @ ''}'' \<noteq> []" "\<not> isWhiteSpace (hd (''{'' @ ?n @ ''}''))"
    "\<not> isWhiteSpace (last (''{'' @ ?n @ ''}''))"
    by (simp_all add: isWhiteSpace_def)
  ultimately have "sublist (''{'' @ ?n @ ''}'') (trim (substituteAll reps (template_string t)))"
    by (intro trim_keeps)
  with shape 1 show "sublist p (template_string (partialRender t reps))" by simp
qed

theorem partialRender_keeps_other_placeholders_witness:
  "template_string (partialRender
       (new_Template ''Hello {name}! My name is {assistant}.'' [(''name'', ''you''), (''assistant'', ''me'')])
       [(''name'', ''Human'')]) = ''Hello Human! My name is {assistant}.''
   \<and> replacements (partialRender
       (new_Template ''Hello {name}! My name is {assistant}.'' [(''name'', ''you''), (''assistant'', ''me'')])
       [(''name'', ''Human'')]) = [(''assistant'', ''me'')]
   \<and> sublist ''{assistant}'' (template_string (partialRender
       (new_Template ''Hello {name}! My name is {assistant}.'' [(''name'', ''you''), (''assistant'', ''me'')])
       [(''name'', ''Human'')]))"
proof -
  let ?t = "new_Template ''Hello {name}! My name is {assistant}.'' [(''name'', ''you''), (''assistant'', ''me'')]"
  let ?r = "[(''name'', ''Human'')]"
  have m: "''{assistant}'' \<in> set (matchAllPlaceholders (template_string ?t))" by code_simp
  have n: "placeholderName ''{assistant}'' \<notin> fst ` set ?r" by code_simp
  have b: "braceFree (placeholderName ''{assistant}'')" by code_simp
  have k: "\<forall>k\<in>fst ` set ?r. braceFree k" by code_simp
  have s: "trim (substituteAll ?r (template_string ?t)) = ''Hello Human! My name is {assistant}.''"
    by code_simp
  have f: "filter (\<lambda>kv. fst kv \<notin> fst ` set ?r) (replacements ?t) = [(''assistant'', ''me'')]"
    by code_simp
  have o: "\<forall>k\<in>fst ` set (replacements ?t). k \<notin> set objectPrototypeNames" by code_simp
  from partialRender_keeps_other_placeholders[of ?t ?r] m n b k s f o show ?thesis by auto
qed

text \<open>
  The claim without the condition on braces fails: the template \<open>{a{b}\<close> has the one
  placeholder \<open>{a{b}\<close>, named \<open>a{b\<close>; rendering it partially with a value for \<open>b\<close>
  rewrites the inner \<open>{b}\<close> and the placeholder is gone. And a default named
  \<open>toString\<close> is dropped by a partial rendering with no replacements at all, since
  \<open>"toString" in {}\<close> holds.
\<close>

theorem partialRender_nested_braces_counterexample:
  "''{a{b}'' \<in> set (matchAllPlaceholders (template_string (new_Template ''{a{b}'' [])))
   \<and> placeholderName ''{a{b}'' \<notin> fst ` set [(''b'', ''x'')]
   \<and> template_string (partialRender (new_Template ''{a{b}'' []) [(''b'', ''x'')]) = ''{ax''
   \<and> \<not> sublist ''{a{b}'' (template_string (partialRender (new_Template ''{a{b}'' []) [(''b'', ''x'')]))
   \<and> replacements (partialRender (new_Template ''{toString}'' [(''toString'', ''x'')]) []) = []
   \<and> filter (\<lambda>kv. fst kv \<notin> fst ` set ([] :: replacements))
         (replacements (new_Template ''{toString}'' [(''toString'', ''x'')]))
       = [(''toString'', ''x'')]"
proof -
  have 1: "''{a{b}'' \<in> set (matchAllPlaceholders (template_string (new_Template ''{a{b}'' [])))"
    by code_simp
  have 2: "placeholderName ''{a{b}'' \<notin> fst ` set [(''b'', ''x'')]" by code_simp
  have 3: "template_string (partialRender (new_Template ''{a{b}'' []) [(''b'', ''x'')]) = ''{ax''"
    by code_simp
  have 4: "replacements (partialRender (new_Template ''{toString}'' [(''toString'', ''x'')]) []) = []"
    by code_simp
  have 5: "filter (\<lambda>kv. fst kv \<notin> fst ` set ([] :: replacements))
         (replacements (new_Template ''{toString}'' [(''toString'', ''x'')]))
       = [(''toString'', ''x'')]"
    by (simp add: new_Template_def)
  have "\<not> sublist ''{a{b}'' ''{ax''" by (auto dest: sublist_length_le)
  with 1 2 3 4 5 show ?thesis by simp
qed

section \<open>Properties of the logger\<close>

lemma SeverityNameByLevel_SeverityLevel: "SeverityNameByLevel (SeverityLevel v) = Some v"
  by (cases v) (simp_all add: SeverityNameByLevel_def SeverityLevel_def)


lemma setLogFields_ok:
  "originStack here error \<noteq> [] \<Longrightarrow>
   setLogFields here error level logger this =
     Inr (this\<lparr>log_level := levelNameValue level, log_logger := logger,
              log_origin_file_column := columnNumber (last (originStack here error)),
              log_origin_file_line := lineNumber (last (originStack here error)),
              log_origin_file_name := afterLastSlash (fileName (last (originStack here error))),
              log_origin_file_path := fileName (last (originStack here error))\<rparr>)"
  by (simp add: setLogFields_def Let_def)

lemma log_ok:
  assumes "originStack here (opt_error options) \<noteq> []"
  shows "log format rt here this (SeverityLevel v) level options =
     Inr (builtLogObject rt here (settings this) level options,
          if isSilentMode this (SeverityLevel v) then []
          else [(v, format (builtLogObject rt here (settings this) level options))])"
  using assms
  by (simp add: log_def Let_def setLogFields_ok SeverityNameByLevel_SeverityLevel builtLogObject_def)

text \<open>With an empty stack the call throws under every configured severity and at every
  level: the condition of \<open>log_ok\<close> concerns the origin of the record, not the gating.\<close>

lemma log_empty_stack:
  "originStack here (opt_error options) = [] \<Longrightarrow>
   log format rt here this sev level options = Inl (TypeError ''Cannot read properties of undefined'')"
  by (simp add: log_def Let_def setLogFields_def)



lemma new_LogObject_error_fields:
  "error_code (new_LogObject rt (Some e) rq rs) = err_code e"
  "error_id (new_LogObject rt (Some e) rq rs) = err_id e"
  by (simp_all add: new_LogObject_def initialLogObject_def setErrorFields_def setRequestFields_def
      setResponseFields_def Let_def split: option.splits)

lemma builtLogObject_error_fields:
  "error_code (builtLogObject rt here s level options)
     = error_code (new_LogObject rt (opt_error options) (opt_request options) (opt_response options))"
  "error_id (builtLogObject rt here s level options)
     = error_id (new_LogObject rt (opt_error options) (opt_request options) (opt_response options))"
  by (simp_all add: builtLogObject_def setServiceFields_def setBaseFields_def)





text \<open>
  Claim C8. For an \<open>Error\<close> instance whose \<open>code\<close> and \<open>id\<close> are set, the record the
  constructor builds from it carries these values in \<open>error.code\<close> and \<open>error.id\<close>, and
  so does every record \<open>error()\<close> returns for it.
\<close>

theorem error_code_and_id_are_copied:
  assumes "isErrorInstance e" "err_code e = Some c" "err_id e = Some i"
  shows "error_code (new_LogObject rt (Some e) request response) = Some c
     \<and> error_id (new_LogObject rt (Some e) request response) = Some i
     \<and> (\<forall>record calls. log_error format rt here this msg args (Some e) = Inr (record, calls) \<longrightarrow>
           error_code record = Some c \<and> error_id record = Some i)"
proof -
  have "originStack here (Some e) \<noteq> []" if "log_error format rt here this msg args (Some e) = Inr (r, calls)"
    for r calls
    using that by (auto simp: log_error_def log_def Let_def setLogFields_def split: if_splits)
  then have "error_code r = Some c \<and> error_id r = Some i"
    if "log_error format rt here this msg args (Some e) = Inr (r, calls)" for r calls
    using that assms
    by (auto simp: log_error_def log_ok builtLogObject_error_fields new_LogObject_error_fields)
  with assms show ?thesis by (simp add: new_LogObject_error_fields)
qed



theorem error_code_and_id_are_copied_witness:
  "error_code (new_LogObject \<lparr>now = ''2024-01-01 00:00:00.000'', denoArgs = []\<rparr>
       (Some \<lparr>err_code = Some ''1234'', err_id = Some ''abcd-efgh'', err_message = Some ''Oops!'',
              err_name = Some ''Error'', err_stack = None, err_title = None,
              isErrorInstance = True,
              errorCallsites = [\<lparr>fileName = ''file:///app/logger.test.ts'', lineNumber = 8,
                                  columnNumber = 19\<rparr>]\<rparr>) None None) = Some ''1234''
   \<and> error_id (new_LogObject \<lparr>now = ''2024-01-01 00:00:00.000'', denoArgs = []\<rparr>
       (Some \<lparr>err_code = Some ''1234'', err_id = Some ''abcd-efgh'', err_message = Some ''Oops!'',
              err_name = Some ''Error'', err_stack = None, err_title = None,
              isErrorInstance = True,
              errorCallsites = [\<lparr>fileName = ''file:///app/logger.test.ts'', lineNumber = 8,
                                  columnNumber = 19\<rparr>]\<rparr>) None None) = Some ''abcd-efgh''"
proof -
  let ?e = "\<lparr>err_code = Some ''1234'', err_id = Some ''abcd-efgh'', err_message = Some ''Oops!'',
              err_name = Some ''Error'', err_stack = None, err_title = None,
              isErrorInstance = True,
              errorCallsites = [\<lparr>fileName = ''file:///app/logger.test.ts'', lineNumber = 8,
                                  columnNumber = 19\<rparr>]\<rparr>"
  have 1: "isErrorInstance ?e" by simp
  have 2: "err_code ?e = Some ''1234''" by simp
  have 3: "err_id ?e = Some ''abcd-efgh''" by simp
  from error_code_and_id_are_copied[OF 1 2 3, of "\<lparr>now = ''2024-01-01 00:00:00.000'', denoArgs = []\<rparr>" None None]
  show ?thesis by blast
qed

section \<open>Properties of the pretty logger\<close>

lemma lazyBody_sound':
  "lazyBody s = Some (b, r) \<Longrightarrow> s = b @ CHR ''}'' # r"
  by (induction s arbitrary: b r) (auto split: if_splits option.splits)

lemma lazyBody_plain:
  "CHR ''}'' \<notin> set xs \<Longrightarrow> \<forall>c\<in>set xs. \<not> isLineTerminator c \<Longrightarrow>
   lazyBody (xs @ CHR ''}'' # b) = Some (xs, b)"
  by (induction xs) auto

lemma lazyBody_append:
  "lazyBody (xs @ ys) =
     (case lazyBody xs of
        Some (b, r) \<Rightarrow> Some (b, r @ ys)
      | None \<Rightarrow> if \<exists>c\<in>set xs. isLineTerminator c then None
                else (case lazyBody ys of None \<Rightarrow> None | Some (b, r) \<Rightarrow> Some (xs @ b, r)))"
  by (induction xs) (auto split: option.splits)

lemma placeholderAt_exact:
  assumes "n \<noteq> []" "CHR ''}'' \<notin> set n" "\<forall>c\<in>set n. \<not> isLineTerminator c"
  shows "placeholderAt (CHR ''{'' # n @ CHR ''}'' # b) = Some (CHR ''{'' # n @ ''}'', b)"
proof -
  from assms obtain d n' where n: "n = d # n'" by (cases n) auto
  with assms have "lazyBody (n' @ CHR ''}'' # b) = Some (n', b)" "\<not> isLineTerminator d"
    by (auto intro: lazyBody_plain)
  with n show ?thesis by simp
qed

lemma placeholderAt_overlap:
  assumes n: "n \<noteq> []" "CHR ''}'' \<notin> set n" "\<forall>c\<in>set n. \<not> isLineTerminator c"
    and a: "a \<noteq> []"
    and m: "placeholderAt (a @ CHR ''{'' # n @ CHR ''}'' # b) = Some (m, r)"
  shows "(length m \<le> length a \<and> m \<noteq> [] \<and> r = drop (length m) a @ CHR ''{'' # n @ CHR ''}'' # b)
       \<or> (m = a @ CHR ''{'' # n @ ''}'' \<and> r = b \<and> hd a = CHR ''{'')"
proof -
  let ?p = "CHR ''{'' # n @ CHR ''}'' # b"
  from a obtain c a' where ac: "a = c # a'" by (cases a) auto
  show ?thesis
  proof (cases a')
    case Nil
    from m ac Nil have c: "c = CHR ''{''" by (auto split: if_splits)
    from lazyBody_plain[OF n(2,3)] have "lazyBody (n @ CHR ''}'' # b) = Some (n, b)" .
    with m ac Nil c have "m = CHR ''{'' # CHR ''{'' # n @ ''}''" "r = b"
      by (auto simp: isLineTerminator_def)
    with ac Nil c show ?thesis by simp
  next
    case (Cons d a3)
    from m ac Cons have c: "c = CHR ''{''" and d: "\<not> isLineTerminator d"
      by (auto split: if_splits)
    from m ac Cons c d obtain bd where bd: "lazyBody (a3 @ ?p) = Some (bd, r)"
      and mm: "m = CHR ''{'' # d # bd @ ''}''"
      by (auto split: option.splits)
    show ?thesis
    proof (cases "lazyBody a3")
      case (Some br)
      then obtain b0 r0 where br: "br = (b0, r0)" by (cases br)
      from Some br bd have "bd = b0" "r = r0 @ ?p" by (auto simp: lazyBody_append)
      moreover from lazyBody_sound'[OF Some[unfolded br]] have "a3 = b0 @ CHR ''}'' # r0" .
      ultimately show ?thesis using mm ac Cons c by simp
    next
      case None
      have pb: "lazyBody ?p = Some (CHR ''{'' # n, b)"
        using lazyBody_plain[OF n(2,3), of b] by (simp add: isLineTerminator_def)
      from None bd pb have "bd = a3 @ CHR ''{'' # n" "r = b"
        by (auto simp: lazyBody_append split: if_splits)
      with mm ac Cons c show ?thesis by simp
    qed
  qed
qed

lemma substitutionKey_exact:
  "CHR ''}'' \<notin> set n \<Longrightarrow> substitutionKey (CHR ''{'' # n @ ''}'') = n"
  by (simp add: substitutionKey_def remove1_append)

lemma substitutionKey_nested:
  assumes "a \<noteq> []" "hd a = CHR ''{''"
  shows "CHR ''{'' \<in> set (substitutionKey (a @ CHR ''{'' # n @ ''}''))"
proof -
  from assms obtain a' where "a = CHR ''{'' # a'" by (cases a) auto
  then have "remove1 (CHR ''{'') (a @ CHR ''{'' # n @ ''}'') = a' @ CHR ''{'' # n @ ''}''" by simp
  then show ?thesis by (simp add: substitutionKey_def)
qed

lemma substitute_keeps:
  assumes n: "n \<noteq> []" "CHR ''}'' \<notin> set n" "\<forall>c\<in>set n. \<not> isLineTerminator c"
    and falsy: "\<not> truthy (substitutions n)"
    and keys: "\<forall>k. truthy (substitutions k) \<longrightarrow> CHR ''{'' \<notin> set k"
  shows "\<exists>x y. substitute toStr substitutions (a @ CHR ''{'' # n @ CHR ''}'' # b)
            = x @ (CHR ''{'' # n @ ''}'') @ y"
proof (induction a rule: length_induct)
  case (1 a)
  let ?p = "CHR ''{'' # n @ ''}''"
  show ?case
  proof (cases a)
    case Nil
    have "substitutionFor toStr substitutions ?p = ?p"
      using falsy n(2) by (simp add: substitutionFor_def substitutionKey_exact)
    with placeholderAt_exact[OF n, of b] Nil
    have "substitute toStr substitutions (a @ CHR ''{'' # n @ CHR ''}'' # b)
            = [] @ ?p @ substitute toStr substitutions b" by simp
    then show ?thesis by (intro exI)
  next
    case (Cons c a')
    show ?thesis
    proof (cases "placeholderAt (a @ CHR ''{'' # n @ CHR ''}'' # b)")
      case None
      from 1 Cons obtain x y where
        "substitute toStr substitutions (a' @ CHR ''{'' # n @ CHR ''}'' # b) = x @ ?p @ y"
        by (metis length_Cons lessI)
      with None Cons have "substitute toStr substitutions (a @ CHR ''{'' # n @ CHR ''}'' # b)
            = (c # x) @ ?p @ y" by simp
      then show ?thesis by (intro exI)
    next
      case (Some mr)
      then obtain m r where mr: "mr = (m, r)" by (cases mr)
      have ane: "a \<noteq> []" using Cons by simp
      from Some mr Cons have unf: "substitute toStr substitutions (a @ CHR ''{'' # n @ CHR ''}'' # b)
            = substitutionFor toStr substitutions m @ substitute toStr substitutions r" by simp
      from placeholderAt_overlap[OF n ane Some[unfolded mr]]
      show ?thesis
      proof
        assume h: "length m \<le> length a \<and> m \<noteq> [] \<and> r = drop (length m) a @ CHR ''{'' # n @ CHR ''}'' # b"
        then have "length (drop (length m) a) < length a" using ane by (cases m) auto
        with 1 obtain x y where
          "substitute toStr substitutions (drop (length m) a @ CHR ''{'' # n @ CHR ''}'' # b) = x @ ?p @ y"
          by blast
        with unf h have "substitute toStr substitutions (a @ CHR ''{'' # n @ CHR ''}'' # b)
            = (substitutionFor toStr substitutions m @ x) @ ?p @ y" by simp
        then show ?thesis by (intro exI)
      next
        assume h: "m = a @ CHR ''{'' # n @ ''}'' \<and> r = b \<and> hd a = CHR ''{''"
        with substitutionKey_nested[OF ane, of n] have "CHR ''{'' \<in> set (substitutionKey m)" by simp
        with keys have "\<not> truthy (substitutions (substitutionKey m))" by blast
        then have "substitutionFor toStr substitutions m = m" by (simp add: substitutionFor_def)
        with unf h have "substitute toStr substitutions (a @ CHR ''{'' # n @ CHR ''}'' # b)
            = a @ ?p @ substitute toStr substitutions b" by simp
        then show ?thesis by (intro exI)
      qed
    qed
  qed
qed

lemma logObjectFields_names: "map fst (logObjectFields l) = logObjectFieldNames"
  by (simp add: logObjectFields_def logObjectFieldNames_def)

lemma property_names_braceFree:
  "\<forall>k\<in>set (logObjectFieldNames @ map fst inheritedMembers).
      k \<noteq> [] \<and> braceFree k \<and> (\<forall>c\<in>set k. \<not> isLineTerminator c)"
  by (simp add: logObjectFieldNames_def inheritedMembers_def objectPrototypeNames_def braceFree_def
      isLineTerminator_def)

lemma truthy_property_name:
  assumes "truthy (logObjectProperty l k)"
  shows "k \<in> set (logObjectFieldNames @ map fst inheritedMembers)"
proof -
  from assms obtain v where "map_of (logObjectFields l @ inheritedMembers) k = Some v"
    by (auto simp: logObjectProperty_def split: option.splits)
  then have "k \<in> fst ` set (logObjectFields l @ inheritedMembers)"
    by (rule map_of_SomeD[THEN imageI[where f = fst], simplified])
  then show ?thesis using logObjectFields_names[of l] by (metis map_append set_map)
qed

lemma data_property: "logObjectProperty l ''data'' = (case data l of None \<Rightarrow> JUndefined | Some d \<Rightarrow> JArray d)"
  by (simp add: logObjectProperty_def logObjectFields_def)

lemma stack_property:
  "logObjectProperty l ''error.stack_trace''
     = (case error_stack_trace l of None \<Rightarrow> JUndefined | Some st \<Rightarrow> JArray (map callSiteValue st))"
  by (simp add: logObjectProperty_def logObjectFields_def)

text \<open>
  Claim C10. In pretty mode a placeholder that names a field of the log record whose
  value is falsy (undefined, the empty string, the number 0) is left in the formatted
  text as it stands: wherever the template contains \<open>{name}\<close>, the text
  \<open>applyTemplate\<close> returns contains it too, and the placeholder on its own is
  substituted by itself.
\<close>

theorem falsy_field_placeholder_is_kept:
  assumes "n \<in> set logObjectFieldNames" "\<not> truthy (logObjectProperty l n)"
    "sublist (''{'' @ n @ ''}'') template"
  shows "sublist (''{'' @ n @ ''}'') (applyTemplate inspect prettifyStack toStr template l)
     \<and> substitute toStr (logObjectProperty l) (''{'' @ n @ ''}'') = ''{'' @ n @ ''}''"
proof -
  let ?p = "''{'' @ n @ ''}''"
  let ?s = "logObjectProperty l"
  from assms(1) property_names_braceFree
  have n: "n \<noteq> []" "braceFree n" "\<forall>c\<in>set n. \<not> isLineTerminator c" by auto
  then have n': "CHR ''}'' \<notin> set n" by (simp add: braceFree_def)
  have keys: "\<forall>k. truthy (?s k) \<longrightarrow> CHR ''{'' \<notin> set k"
    using truthy_property_name property_names_braceFree unfolding braceFree_def by blast
  have keep: "sublist ?p (substitute toStr ?s t)" if "sublist ?p t" for t
  proof -
    from that obtain a b where "t = a @ CHR ''{'' # n @ CHR ''}'' # b" by (auto simp: sublist_def)
    with substitute_keeps[OF n(1) n' n(3) assms(2) keys, of toStr a b]
    show ?thesis by (auto simp: sublist_def)
  qed
  define args where "args = (case data l of None \<Rightarrow> [] | Some d \<Rightarrow> joinWith [CHR 0x0A] (map inspect d))"
  define stack where "stack = (case error_stack_trace l of None \<Rightarrow> []
                   | Some st \<Rightarrow> joinWith [CHR 0x0A] (map prettifyStack st))"
  define t1 where "t1 = (if args \<noteq> [] then replaceAll ''{data}'' (CHR 0x0A # args) template else template)"
  define t2 where "t2 = (if stack \<noteq> [] then replaceAll ''{error.stack_trace}'' (CHR 0x0A # stack) t1 else t1)"
  have ap: "applyTemplate inspect prettifyStack toStr template l = substitute toStr ?s t2"
    by (simp add: applyTemplate_def Let_def args_def stack_def t1_def t2_def)
  have 1: "sublist ?p t1"
  proof (cases "args \<noteq> []")
    case True
    then have "data l \<noteq> None" by (auto simp: args_def split: option.splits)
    with assms(2) have "n \<noteq> ''data''" by (auto simp: data_property)
    then have "''data'' \<noteq> n" by blast
    from replaceAll_keeps[OF _ n(2) this assms(3), of "CHR 0x0A # args"] True
    show ?thesis by (simp add: t1_def braceFree_def)
  next
    case False
    with assms(3) show ?thesis by (simp add: t1_def)
  qed
  have 2: "sublist ?p t2"
  proof (cases "stack \<noteq> []")
    case True
    then have "error_stack_trace l \<noteq> None" by (auto simp: stack_def split: option.splits)
    with assms(2) have "n \<noteq> ''error.stack_trace''" by (auto simp: stack_property)
    then have "''error.stack_trace'' \<noteq> n" by blast
    from replaceAll_keeps[OF _ n(2) this 1, of "CHR 0x0A # stack"] True
    show ?thesis by (simp add: t2_def braceFree_def)
  next
    case False
    with 1 show ?thesis by (simp add: t2_def)
  qed
  have 3: "substitute toStr ?s ?p = ?p"
  proof -
    have "substitutionFor toStr ?s (CHR ''{'' # n @ ''}'') = CHR ''{'' # n @ ''}''"
      using assms(2) n' by (simp add: substitutionFor_def substitutionKey_exact)
    with placeholderAt_exact[OF n(1) n' n(3), of "[]"] show ?thesis by simp
  qed
  from keep[OF 2] ap 3 show ?thesis by simp
qed

theorem falsy_field_placeholder_is_kept_witness:
  "applyTemplate (\<lambda>v. ''v'') (\<lambda>c. ''c'') (\<lambda>v. case v of JString s \<Rightarrow> s | _ \<Rightarrow> ''?'')
      ''{log.level} {message} {log.origin.file.column}''
      ((initialLogObject \<lparr>now = ''2024'', denoArgs = []\<rparr>)\<lparr>log_level := ''DEBUG''\<rparr>)
     = ''DEBUG {message} {log.origin.file.column}''
   \<and> sublist ''{message}''
       (applyTemplate (\<lambda>v. ''v'') (\<lambda>c. ''c'') (\<lambda>v. case v of JString s \<Rightarrow> s | _ \<Rightarrow> ''?'')
          ''{log.level} {message} {log.origin.file.column}''
          ((initialLogObject \<lparr>now = ''2024'', denoArgs = []\<rparr>)\<lparr>log_level := ''DEBUG''\<rparr>))"
proof -
  let ?l = "(initialLogObject \<lparr>now = ''2024'', denoArgs = []\<rparr>)\<lparr>log_level := ''DEBUG''\<rparr>"
  have 1: "''message'' \<in> set logObjectFieldNames" by (simp add: logObjectFieldNames_def)
  have 2: "\<not> truthy (logObjectProperty ?l ''message'')"
    by (simp add: logObjectProperty_def logObjectFields_def initialLogObject_def)
  have 3: "sublist (''{'' @ ''message'' @ ''}'') ''{log.level} {message} {log.origin.file.column}''"
    by code_simp
  have 4: "applyTemplate (\<lambda>v. ''v'') (\<lambda>c. ''c'') (\<lambda>v. case v of JString s \<Rightarrow> s | _ \<Rightarrow> ''?'')
      ''{log.level} {message} {log.origin.file.column}'' ?l
     = ''DEBUG {message} {log.origin.file.column}''"
    by code_simp
  have eq: "''{'' @ ''message'' @ ''}'' = ''{message}''" by simp
  from falsy_field_placeholder_is_kept[OF 1 2 3]
  have "sublist (''{'' @ ''message'' @ ''}'')
         (applyTemplate (\<lambda>v. ''v'') (\<lambda>c. ''c'') (\<lambda>v. case v of JString s \<Rightarrow> s | _ \<Rightarrow> ''?'')
            ''{log.level} {message} {log.origin.file.column}'' ?l)"
    by (rule conjunct1)
  then have 5: "sublist ''{message}''
         (applyTemplate (\<lambda>v. ''v'') (\<lambda>c. ''c'') (\<lambda>v. case v of JString s \<Rightarrow> s | _ \<Rightarrow> ''?'')
            ''{log.level} {message} {log.origin.file.column}'' ?l)"
    unfolding eq .
  from 4 5 show ?thesis by (rule conjI)
qed

section \<open>Properties of the git wrapper\<close>

lemma foldl_join_shift:
  "foldl (\<lambda>acc x. acc @ sep @ x) (p @ sep @ y) ys = p @ sep @ foldl (\<lambda>acc x. acc @ sep @ x) y ys"
  by (induction ys arbitrary: y) simp_all

lemma joinWith_Cons: "zs \<noteq> [] \<Longrightarrow> joinWith sep (p # zs) = p @ sep @ joinWith sep zs"
  by (cases zs) (simp_all add: joinWith_def foldl_join_shift)

lemma splitFrom_nonempty: "splitFrom sep piece s \<noteq> []"
  by (induction sep piece s rule: splitFrom.induct) auto

lemma joinWith_splitFrom: "joinWith sep (splitFrom sep piece s) = piece @ s"
proof (induction sep piece s rule: splitFrom.induct)
  case (1 sep piece)
  then show ?case by (simp add: joinWith_def)
next
  case (2 sep piece c cs)
  show ?case
  proof (cases "sep \<noteq> [] \<and> prefix sep (c # cs)")
    case True
    then have s: "c # cs = sep @ drop (length sep) (c # cs)"
      by (metis append_eq_conv_conj prefixE)
    from True 2 have "joinWith sep (splitFrom sep [] (drop (length sep) (c # cs)))
        = drop (length sep) (c # cs)" by simp
    with True s show ?thesis by (simp add: joinWith_Cons splitFrom_nonempty)
  next
    case False
    with 2 show ?thesis by auto
  qed
qed

lemma splitFrom_no_separator:
  assumes "sep \<noteq> []" "\<forall>i<length piece. \<not> prefix sep (drop i (piece @ s))"
  shows "\<forall>p\<in>set (splitFrom sep piece s). \<not> sublist sep p"
  using assms
proof (induction sep piece s rule: splitFrom.induct)
  case (1 sep piece)
  have "\<not> sublist sep piece"
  proof
    assume "sublist sep piece"
    then obtain a b where p: "piece = a @ sep @ b" by (auto simp: sublist_def)
    with 1(1) have "length a < length piece" by (cases sep) auto
    moreover from p have "prefix sep (drop (length a) (piece @ []))" by simp
    ultimately show False using 1(2) by blast
  qed
  then show ?case by simp
next
  case (2 sep piece c cs)
  have np: "\<not> sublist sep piece"
  proof
    assume "sublist sep piece"
    then obtain a b where p: "piece = a @ sep @ b" by (auto simp: sublist_def)
    with 2(3) have "length a < length piece" by (cases sep) auto
    moreover from p have "prefix sep (drop (length a) (piece @ c # cs))" by simp
    ultimately show False using 2(4) by blast
  qed
  show ?case
  proof (cases "prefix sep (c # cs)")
    case True
    from 2(1)[OF _ 2(3)] True 2(3)
    have "\<forall>p\<in>set (splitFrom sep [] (drop (length sep) (c # cs))). \<not> sublist sep p" by simp
    with True 2(3) np show ?thesis by simp
  next
    case False
    have "\<forall>i<length (piece @ [c]). \<not> prefix sep (drop i ((piece @ [c]) @ cs))"
    proof (intro allI impI)
      fix i assume "i < length (piece @ [c])"
      then consider "i < length piece" | "i = length piece" by fastforce
      then show "\<not> prefix sep (drop i ((piece @ [c]) @ cs))"
      proof cases
        case 1
        with 2(4) show ?thesis by simp
      next
        case 2
        with False show ?thesis by simp
      qed
    qed
    from 2(2)[OF _ 2(3) this] False show ?thesis by simp
  qed
qed

lemma split_no_separator: "sep \<noteq> [] \<Longrightarrow> \<forall>p\<in>set (split sep s). \<not> sublist sep p"
  unfolding split_def by (rule splitFrom_no_separator) simp_all

lemma mapThrowing_Inr:
  "mapThrowing f xs = Inr ys \<Longrightarrow>
     length ys = length xs \<and> (\<forall>i<length ys. f (xs ! i) = Inr (ys ! i))"
proof (induction xs arbitrary: ys)
  case Nil
  then show ?case by simp
next
  case (Cons x xs)
  from Cons.prems obtain y ys' where y: "f x = Inr y" "mapThrowing f xs = Inr ys'" "ys = y # ys'"
    by (auto split: sum.splits)
  from Cons.IH[OF y(2)] y show ?case by (auto simp: nth_Cons split: nat.splits)
qed

lemma mapThrowing_total:
  "\<forall>x\<in>set xs. \<exists>y. f x = Inr y \<Longrightarrow> \<exists>ys. mapThrowing f xs = Inr ys"
  by (induction xs) (auto split: sum.splits)

lemma mapThrowing_fails:
  "\<exists>x\<in>set xs. \<exists>e. f x = Inl e \<Longrightarrow> \<exists>e. mapThrowing f xs = Inl e"
proof (induction xs)
  case Nil
  then show ?case by simp
next
  case (Cons a xs)
  show ?case
  proof (cases "f a")
    case (Inl e)
    then show ?thesis by simp
  next
    case (Inr y)
    with Cons.prems have "\<exists>x\<in>set xs. \<exists>e. f x = Inl e" by auto
    from Cons.IH[OF this] Inr show ?thesis by auto
  qed
qed

text \<open>
  Claim C6, amended. \<open>log\<close> splits the output at every occurrence of the delimiter
  (the pieces joined by the delimiter give the output back, and no piece contains the
  delimiter), drops the empty pieces, puts the delimiter back in front of each piece
  left, and parses these fragments in order. When it returns, it returns one record per
  fragment, the record of the i-th fragment in the i-th place; it returns when every
  fragment parses, and throws when one does not.
\<close>

theorem log_one_record_per_nonempty_piece:
  "joinWith logDelimiter (split logDelimiter output) = output
   \<and> (\<forall>piece\<in>set (split logDelimiter output). \<not> sublist logDelimiter piece)
   \<and> rawCommits output
       = map (\<lambda>v. logDelimiter @ v) (filter (\<lambda>v. v \<noteq> []) (split logDelimiter output))
   \<and> (git_log parseCommit (Inr output) = Inr commits \<longrightarrow>
        length commits = length (rawCommits output)
        \<and> (\<forall>i<length commits. parseCommit (rawCommits output ! i) = Inr (commits ! i)))
   \<and> ((\<forall>f\<in>set (rawCommits output). \<exists>c. parseCommit f = Inr c) \<longrightarrow>
        (\<exists>cs. git_log parseCommit (Inr output) = Inr cs))
   \<and> ((\<exists>f\<in>set (rawCommits output). \<exists>e. parseCommit f = Inl e) \<longrightarrow>
        (\<exists>e. git_log parseCommit (Inr output) = Inl e))"
proof (intro conjI impI)
  have d: "logDelimiter \<noteq> []" by (simp add: logDelimiter_def)
  have g: "git_log parseCommit (Inr output) = mapThrowing parseCommit (rawCommits output)"
    by (simp add: git_log_def parseLogOutput_def)
  show "joinWith logDelimiter (split logDelimiter output) = output"
    by (simp add: split_def joinWith_splitFrom)
  show "\<forall>piece\<in>set (split logDelimiter output). \<not> sublist logDelimiter piece"
    by (rule split_no_separator[OF d])
  show "rawCommits output
       = map (\<lambda>v. logDelimiter @ v) (filter (\<lambda>v. v \<noteq> []) (split logDelimiter output))"
    by (simp add: rawCommits_def)
  {
    assume "git_log parseCommit (Inr output) = Inr commits"
    then have m: "mapThrowing parseCommit (rawCommits output) = Inr commits" by (simp add: g)
    from mapThrowing_Inr[OF m] show "length commits = length (rawCommits output)" by simp
    from mapThrowing_Inr[OF m]
    show "\<forall>i<length commits. parseCommit (rawCommits output ! i) = Inr (commits ! i)" by simp
  }
  {
    assume "\<forall>f\<in>set (rawCommits output). \<exists>c. parseCommit f = Inr c"
    from mapThrowing_total[OF this] show "\<exists>cs. git_log parseCommit (Inr output) = Inr cs"
      by (simp add: g)
  }
  {
    assume "\<exists>f\<in>set (rawCommits output). \<exists>e. parseCommit f = Inl e"
    from mapThrowing_fails[OF this] show "\<exists>e. git_log parseCommit (Inr output) = Inl e"
      by (simp add: g)
  }
qed

subsection \<open>The timestamp of a commit\<close>

declare floorLog2.simps [simp del]

lemma powerOf_powi: "powerOf 2 k = 2 powi k"
  by (simp add: powerOf_def power_int_def field_simps)

lemma powerOf_pos: "0 < powerOf 2 k"
  by (simp add: powerOf_powi zero_less_power_int)

lemma powerOf_mono: "j \<le> k \<Longrightarrow> powerOf 2 j \<le> powerOf 2 k"
  by (simp add: powerOf_powi power_int_increasing)

lemma powerOf_less: "j < k \<Longrightarrow> powerOf 2 j < powerOf 2 k"
  by (simp add: powerOf_powi power_int_strict_increasing)

lemma powerOf_le_D: "powerOf 2 j \<le> powerOf 2 k \<Longrightarrow> j \<le> k"
  using powerOf_less[of k j] by (cases "j \<le> k") auto

lemma powerOf_add: "powerOf 2 (j + k) = powerOf 2 j * powerOf 2 k"
  by (simp add: powerOf_powi power_int_add)

lemma powerOf_nat: "powerOf 2 (int n) = 2 ^ n"
  by (simp add: powerOf_def)

lemma powerOf_minus_nat: "powerOf 2 (- int n) = 1 / 2 ^ n"
  by (simp add: powerOf_powi power_int_minus divide_inverse)

lemma floorLog2_bounds: "1 \<le> n \<Longrightarrow> 2 ^ floorLog2 n \<le> n \<and> n < 2 ^ Suc (floorLog2 n)"
proof (induction n rule: floorLog2.induct)
  case (1 n)
  show ?case
  proof (cases "n < 2")
    case True
    with 1(2) have "n = 1" by simp
    then show ?thesis by (simp add: floorLog2.simps)
  next
    case False
    then have "1 \<le> n div 2" by simp
    with 1(1) False have ih: "2 ^ floorLog2 (n div 2) \<le> n div 2"
      "n div 2 < 2 ^ Suc (floorLog2 (n div 2))" by simp_all
    have fl: "floorLog2 n = Suc (floorLog2 (n div 2))"
      using False by (subst floorLog2.simps) simp
    from ih(1) have "2 ^ floorLog2 n \<le> 2 * (n div 2)" by (simp add: fl)
    also have "\<dots> \<le> n" by simp
    finally have a: "2 ^ floorLog2 n \<le> n" .
    from ih(2) have "n div 2 + 1 \<le> 2 ^ floorLog2 n" by (simp add: fl)
    then have "2 * (n div 2) + 2 \<le> 2 ^ Suc (floorLog2 n)" by simp
    moreover have "n < 2 * (n div 2) + 2" by simp
    ultimately have b: "n < 2 ^ Suc (floorLog2 n)" by linarith
    from a b show ?thesis by simp
  qed
qed

lemma exponentOf_lower:
  assumes "0 < a"
  shows "powerOf 2 (exponentOf a) \<le> a"
proof (cases "1 \<le> a")
  case True
  then have f: "1 \<le> \<lfloor>a\<rfloor>" by simp
  from floorLog2_bounds[OF f] have "2 ^ floorLog2 \<lfloor>a\<rfloor> \<le> \<lfloor>a\<rfloor>" by simp
  then have "(of_int (2 ^ floorLog2 \<lfloor>a\<rfloor>) :: rat) \<le> of_int \<lfloor>a\<rfloor>" by (simp only: of_int_le_iff)
  also have "\<dots> \<le> a" by simp
  finally show ?thesis using True by (simp add: exponentOf_def powerOf_nat)
next
  case False
  with assms have b: "1 < 1 / a" by simp
  let ?n = "\<lceil>1 / a\<rceil>"
  from b have n2: "2 \<le> ?n" by (simp add: le_ceiling_iff)
  then have n1: "1 \<le> ?n - 1" by simp
  from floorLog2_bounds[OF n1] have "?n - 1 < 2 ^ Suc (floorLog2 (?n - 1))" by simp
  then have "?n \<le> 2 ^ ceilingLog2 ?n" using n2 by (simp add: ceilingLog2_def)
  then have "(of_int ?n :: rat) \<le> of_int (2 ^ ceilingLog2 ?n)" by (simp only: of_int_le_iff)
  moreover have "1 / a \<le> of_int ?n" by (rule le_of_int_ceiling)
  ultimately have "1 / a \<le> of_int (2 ^ ceilingLog2 ?n)" by (rule order_trans[rotated])
  then have "1 / a \<le> 2 ^ ceilingLog2 ?n" by simp
  with assms have "1 / 2 ^ ceilingLog2 ?n \<le> a" by (simp add: field_simps)
  then show ?thesis using False by (simp add: exponentOf_def powerOf_minus_nat)
qed

lemma exponentOf_upper:
  assumes "0 < a"
  shows "a < powerOf 2 (exponentOf a + 1)"
proof (cases "1 \<le> a")
  case True
  then have f: "1 \<le> \<lfloor>a\<rfloor>" by simp
  from floorLog2_bounds[OF f] have "\<lfloor>a\<rfloor> + 1 \<le> 2 ^ Suc (floorLog2 \<lfloor>a\<rfloor>)" by simp
  then have "(of_int (\<lfloor>a\<rfloor> + 1) :: rat) \<le> of_int (2 ^ Suc (floorLog2 \<lfloor>a\<rfloor>))" by (simp only: of_int_le_iff)
  moreover have "a < of_int (\<lfloor>a\<rfloor> + 1)" by linarith
  ultimately have "a < 2 ^ Suc (floorLog2 \<lfloor>a\<rfloor>)" by simp
  moreover have "exponentOf a + 1 = int (Suc (floorLog2 \<lfloor>a\<rfloor>))" using True by (simp add: exponentOf_def)
  ultimately show ?thesis by (simp only: powerOf_nat)
next
  case False
  with assms have b: "1 < 1 / a" by simp
  let ?n = "\<lceil>1 / a\<rceil>"
  from b have n2: "2 \<le> ?n" by (simp add: le_ceiling_iff)
  then have n1: "1 \<le> ?n - 1" by simp
  from floorLog2_bounds[OF n1] have "2 ^ floorLog2 (?n - 1) \<le> ?n - 1" by simp
  then have "(of_int (2 ^ floorLog2 (?n - 1)) :: rat) \<le> of_int (?n - 1)" by (simp only: of_int_le_iff)
  moreover have "of_int (?n - 1) < 1 / a" by linarith
  ultimately have "2 ^ floorLog2 (?n - 1) < 1 / a" by simp
  with assms have "a < 1 / 2 ^ floorLog2 (?n - 1)" by (simp add: field_simps)
  moreover have "exponentOf a + 1 = - int (floorLog2 (?n - 1))"
    using False n2 by (simp add: exponentOf_def ceilingLog2_def)
  ultimately show ?thesis by (simp only: powerOf_minus_nat)
qed

lemma roundHalfEven_of_int: "roundHalfEven (of_int k) = k"
  by (simp add: roundHalfEven_def)

lemma roundHalfEven_bounds:
  "x - 1 / 2 \<le> of_int (roundHalfEven x) \<and> of_int (roundHalfEven x) \<le> x + 1 / 2"
  unfolding roundHalfEven_def Let_def by (auto; linarith)

lemma roundHalfEven_le: "x \<le> of_int k \<Longrightarrow> roundHalfEven x \<le> k"
proof -
  assume a: "x \<le> of_int k"
  then have f: "\<lfloor>x\<rfloor> \<le> k" by (simp add: floor_le_iff)
  show ?thesis
  proof (cases "\<lfloor>x\<rfloor> = k")
    case True
    with a have "x = of_int k" by linarith
    then show ?thesis by (simp add: roundHalfEven_of_int)
  next
    case False
    with f have "\<lfloor>x\<rfloor> + 1 \<le> k" by simp
    then show ?thesis unfolding roundHalfEven_def Let_def by auto
  qed
qed

lemma roundHalfEven_ge: "of_int k \<le> x \<Longrightarrow> k \<le> roundHalfEven x"
proof -
  assume "of_int k \<le> x"
  then have "k \<le> \<lfloor>x\<rfloor>" by (simp add: le_floor_iff)
  then show ?thesis unfolding roundHalfEven_def Let_def by auto
qed

lemma toDouble_nonzero:
  assumes "x \<noteq> 0"
  shows "toDouble x =
    (let r = of_int (roundHalfEven (\<bar>x\<bar> / powerOf 2 (max (exponentOf \<bar>x\<bar>) (- 1022) - 52)))
               * powerOf 2 (max (exponentOf \<bar>x\<bar>) (- 1022) - 52)
     in if powerOf 2 1024 \<le> r then (if x < 0 then MinusInfinity else PlusInfinity)
        else Finite (if x < 0 then - r else r))"
  using assms by (simp add: toDouble_def Let_def)

lemma powerOf_1024: "(9007199254740992 :: rat) < powerOf 2 1024"
proof -
  have "powerOf 2 53 < powerOf 2 1024" by (rule powerOf_less) simp
  moreover have "powerOf 2 53 = 9007199254740992" by (simp add: powerOf_def)
  ultimately show ?thesis by simp
qed

text \<open>Below \<open>2^53\<close> the doubles are at most 1 apart, and every multiple of their
  distance is a double.\<close>

lemma quantum_small:
  assumes "0 < a" "a < 9007199254740992"
  shows "\<exists>n. powerOf 2 (max (exponentOf a) (- 1022) - 52) = 1 / 2 ^ n"
proof -
  let ?e = "max (exponentOf a) (- 1022)"
  have "powerOf 2 (exponentOf a) \<le> a" by (rule exponentOf_lower[OF assms(1)])
  with assms(2) have "powerOf 2 (exponentOf a) < 9007199254740992" by simp
  moreover have "powerOf 2 53 = 9007199254740992" by (simp add: powerOf_def)
  ultimately have "powerOf 2 (exponentOf a) < powerOf 2 53" by simp
  then have "exponentOf a < 53" using powerOf_mono[of 53 "exponentOf a"] by (cases "exponentOf a < 53") auto
  then have "?e - 52 = - int (nat (52 - ?e))" by simp
  then have "powerOf 2 (?e - 52) = 1 / 2 ^ nat (52 - ?e)" by (simp only: powerOf_minus_nat)
  then show ?thesis by blast
qed

lemma toDouble_in_range:
  assumes "\<bar>x\<bar> \<le> of_int M" "M < 9007199254740992"
  shows "\<exists>n m. toDouble x = Finite (if x < 0 then - (of_int m / 2 ^ n) else of_int m / 2 ^ n)
             \<and> 0 \<le> m \<and> of_int m / 2 ^ n \<le> (of_int M :: rat)
             \<and> \<bar>of_int m - \<bar>x\<bar> * 2 ^ n\<bar> \<le> 1 / 2"
proof (cases "x = 0")
  case True
  with assms(1) have "toDouble x = Finite (if x < 0 then - (of_int 0 / 2 ^ 0) else of_int 0 / 2 ^ 0)
      \<and> (0 :: int) \<le> 0 \<and> of_int 0 / 2 ^ 0 \<le> (of_int M :: rat)
      \<and> \<bar>of_int 0 - \<bar>x\<bar> * 2 ^ 0\<bar> \<le> 1 / 2"
    by (simp add: toDouble_def)
  then show ?thesis by blast
next
  case False
  let ?a = "\<bar>x\<bar>"
  from False have pos: "0 < ?a" by simp
  from assms(2) have M: "(of_int M :: rat) < 9007199254740992"
    using of_int_less_iff[of M 9007199254740992, where ?'a = rat] by simp
  with assms(1) have lt: "?a < 9007199254740992" by simp
  from quantum_small[OF pos lt] obtain n
    where q: "powerOf 2 (max (exponentOf ?a) (- 1022) - 52) = 1 / 2 ^ n" by blast
  let ?m = "roundHalfEven (?a * 2 ^ n)"
  let ?r = "of_int ?m / (2 ^ n :: rat)"
  have p2: "(0 :: rat) < 2 ^ n" by simp
  have "?a * 2 ^ n \<le> of_int M * 2 ^ n" using assms(1) by simp
  then have "?a * 2 ^ n \<le> of_int (M * 2 ^ n)" by simp
  then have "?m \<le> M * 2 ^ n" by (rule roundHalfEven_le)
  then have "(of_int ?m :: rat) \<le> of_int (M * 2 ^ n)" by (simp only: of_int_le_iff)
  then have "(of_int ?m :: rat) \<le> of_int M * 2 ^ n" by simp
  then have rM: "?r \<le> of_int M" using p2 by (simp add: field_simps)
  have "(of_int 0 :: rat) \<le> ?a * 2 ^ n" by simp
  then have m0: "0 \<le> ?m" by (rule roundHalfEven_ge)
  from roundHalfEven_bounds[of "?a * 2 ^ n"]
  have b: "\<bar>of_int ?m - ?a * 2 ^ n\<bar> \<le> 1 / 2" by linarith
  from rM M have "?r < 9007199254740992" by simp
  with powerOf_1024 have fin: "\<not> powerOf 2 1024 \<le> ?r" by simp
  have td: "toDouble x = Finite (if x < 0 then - ?r else ?r)"
    using fin by (simp add: toDouble_nonzero[OF False] q Let_def)
  from td m0 rM b show ?thesis by blast
qed

text \<open>Dropping the fraction of a rounded number: the integer is less than 1 away from
  the number that was rounded.\<close>

lemma truncated_near:
  assumes "0 \<le> m" "\<bar>of_int m - A * 2 ^ n\<bar> \<le> 1 / 2"
  shows "\<bar>of_int (m div 2 ^ n) - (A :: rat)\<bar> < 1"
proof -
  let ?N = "2 ^ n :: int"
  let ?k = "m div ?N"
  let ?j = "m mod ?N"
  have N: "(1 :: rat) \<le> 2 ^ n" by simp
  have "m = ?k * ?N + ?j" by (rule div_mult_mod_eq[symmetric])
  then have "(of_int m :: rat) = of_int (?k * ?N + ?j)" by (rule arg_cong)
  then have m: "(of_int m :: rat) = of_int ?k * 2 ^ n + of_int ?j" by simp
  have "0 \<le> ?j" by simp
  then have j0: "(0 :: rat) \<le> of_int ?j" by (simp only: of_int_0_le_iff)
  have "?j < ?N" by simp
  then have "?j + 1 \<le> ?N" by linarith
  then have "(of_int (?j + 1) :: rat) \<le> of_int ?N" by (simp only: of_int_le_iff)
  then have j1: "(of_int ?j :: rat) + 1 \<le> 2 ^ n" by simp
  from assms(2) m j0 j1 have "\<bar>of_int ?k * 2 ^ n - A * 2 ^ n\<bar> < 2 ^ n" by linarith
  moreover have "of_int ?k * 2 ^ n - A * 2 ^ n = (of_int ?k - A) * 2 ^ n" by (simp add: algebra_simps)
  ultimately have "\<bar>(of_int ?k - A) * 2 ^ n\<bar> < 2 ^ n" by simp
  then have "\<bar>of_int ?k - A\<bar> * 2 ^ n < 1 * 2 ^ n" by (simp add: abs_mult)
  then show ?thesis by (simp only: mult_less_cancel_right_pos[OF zero_less_power[OF zero_less_numeral]])
qed

lemma toDouble_of_int:
  assumes "\<bar>k\<bar> \<le> 9007199254740992"
  shows "toDouble (of_int k) = Finite (of_int k)"
proof (cases "k = 0")
  case True
  then show ?thesis by (simp add: toDouble_def)
next
  case False
  let ?x = "of_int k :: rat"
  let ?a = "\<bar>?x\<bar>"
  from False have nz: "?x \<noteq> 0" by simp
  have a: "?a = of_int \<bar>k\<bar>" by simp
  from False have pos: "0 < ?a" by simp
  from assms have le: "?a \<le> 9007199254740992"
    using of_int_le_iff[of "\<bar>k\<bar>" 9007199254740992, where ?'a = rat] by simp
  let ?e = "max (exponentOf ?a) (- 1022)"
  let ?q = "powerOf 2 (?e - 52)"
  have r: "of_int (roundHalfEven (?a / ?q)) * ?q = ?a"
  proof (cases "?a < 9007199254740992")
    case True
    from quantum_small[OF pos True] obtain n where q: "?q = 1 / 2 ^ n" by blast
    have "?a / ?q = of_int (\<bar>k\<bar> * 2 ^ n)" by (simp add: q)
    then have "roundHalfEven (?a / ?q) = \<bar>k\<bar> * 2 ^ n" by (simp only: roundHalfEven_of_int)
    then show ?thesis by (simp add: q)
  next
    case False
    with le have eq: "?a = 9007199254740992" by simp
    have "exponentOf (9007199254740992 :: rat) = 53"
      by (simp add: exponentOf_def floorLog2.simps)
    then have q: "?q = 2" by (simp add: eq powerOf_def)
    have "?a / ?q = ?a / 2" by (simp only: q)
    also have "\<dots> = of_int 4503599627370496" by (simp add: eq)
    finally have "roundHalfEven (?a / ?q) = 4503599627370496" by (simp only: roundHalfEven_of_int)
    then have "of_int (roundHalfEven (?a / ?q)) * ?q = 4503599627370496 * 2" by (simp only: q of_int_numeral)
    also have "\<dots> = ?a" by (simp add: eq)
    finally show ?thesis .
  qed
  from le powerOf_1024 have fin: "\<not> powerOf 2 1024 \<le> ?a" by simp
  have "toDouble ?x = Finite (if ?x < 0 then - ?a else ?a)"
    using fin by (simp only: toDouble_nonzero[OF nz] r Let_def if_False)
  then show ?thesis by (simp add: abs_if)
qed

lemma toDouble_out_of_range:
  assumes "8640000000000000 + 125 / 128 \<le> \<bar>x\<bar>"
  shows "toDouble x = PlusInfinity \<or> toDouble x = MinusInfinity
         \<or> (\<exists>r. toDouble x = Finite r \<and> 8640000000000000 < \<bar>r\<bar>)"
proof -
  let ?a = "\<bar>x\<bar>"
  from assms have nz: "x \<noteq> 0" and pos: "0 < ?a" and one: "1 \<le> ?a" by auto
  let ?e = "exponentOf ?a"
  let ?q = "powerOf 2 (max ?e (- 1022) - 52)"
  let ?r = "of_int (roundHalfEven (?a / ?q)) * ?q"
  from one have "0 \<le> ?e" by (simp add: exponentOf_def)
  then have m: "max ?e (- 1022) = ?e" by simp
  have "powerOf 2 ?e = powerOf 2 (?e - 52) * 4503599627370496"
    by (simp add: powerOf_powi power_int_diff)
  moreover have "powerOf 2 ?e \<le> ?a" by (rule exponentOf_lower[OF pos])
  ultimately have q: "?q * 4503599627370496 \<le> ?a" by (simp add: m)
  have qpos: "0 < ?q" by (rule powerOf_pos)
  from roundHalfEven_bounds[of "?a / ?q"] have "?a / ?q - 1 / 2 \<le> of_int (roundHalfEven (?a / ?q))"
    by simp
  then have "(?a / ?q - 1 / 2) * ?q \<le> ?r" using qpos by (simp only: mult_le_cancel_right_pos)
  moreover have "(?a / ?q - 1 / 2) * ?q = ?a - ?q / 2" using qpos by (simp add: field_simps)
  ultimately have "?a - ?q / 2 \<le> ?r" by simp
  with q assms have big: "8640000000000000 < ?r" by linarith
  show ?thesis
  proof (cases "powerOf 2 1024 \<le> ?r")
    case True
    then show ?thesis by (simp add: toDouble_nonzero[OF nz] Let_def)
  next
    case False
    then have "toDouble x = Finite (if x < 0 then - ?r else ?r)"
      by (simp add: toDouble_nonzero[OF nz] Let_def)
    with big show ?thesis by (auto simp: abs_if)
  qed
qed

text \<open>From \<open>2^42\<close> on the doubles are multiples of \<open>2^-10\<close>: the first double
  above 8640000000000 is 8640000000000 + 1/1024.\<close>

lemma toDouble_grid:
  assumes "toDouble a = Finite r" "8640000000000 < \<bar>r\<bar>"
  shows "8640000000000 + 1 / 1024 \<le> \<bar>r\<bar>"
proof -
  from assms have nz: "a \<noteq> 0" by (auto simp: toDouble_def)
  then have pos: "0 < \<bar>a\<bar>" by simp
  let ?e = "exponentOf \<bar>a\<bar>"
  let ?q = "powerOf 2 (max ?e (- 1022) - 52)"
  let ?m = "roundHalfEven (\<bar>a\<bar> / ?q)"
  have qpos: "0 < ?q" by (rule powerOf_pos)
  from assms(1) have r: "\<bar>r\<bar> = \<bar>of_int ?m * ?q\<bar>"
    by (auto simp: toDouble_nonzero[OF nz] Let_def split: if_splits)
  have "(of_int 0 :: rat) \<le> \<bar>a\<bar> / ?q" using qpos by simp
  then have m0: "0 \<le> ?m" by (rule roundHalfEven_ge)
  with qpos r have r': "\<bar>r\<bar> = of_int ?m * ?q" by simp
  show ?thesis
  proof (cases "42 \<le> ?e")
    case True
    then have "max ?e (- 1022) - 52 = int (nat (?e - 42)) + - int 10" by simp
    then have "?q = powerOf 2 (int (nat (?e - 42)) + - int 10)" by (rule arg_cong)
    also have "\<dots> = powerOf 2 (int (nat (?e - 42))) * powerOf 2 (- int 10)"
      by (rule powerOf_add)
    also have "\<dots> = 2 ^ nat (?e - 42) * (1 / 2 ^ 10)"
      by (simp only: powerOf_nat powerOf_minus_nat)
    also have "\<dots> = 2 ^ nat (?e - 42) / 1024" by simp
    finally have q: "?q = 2 ^ nat (?e - 42) / 1024" .
    let ?K = "?m * 2 ^ nat (?e - 42)"
    have rk: "\<bar>r\<bar> = of_int ?K / 1024" by (simp add: r' q)
    with assms(2) have "(8640000000000 :: rat) < of_int ?K / 1024" by simp
    then have "(of_int 8847360000000000 :: rat) < of_int ?K" by simp
    then have "8847360000000000 < ?K" by (simp only: of_int_less_iff)
    then have "8847360000000000 + 1 \<le> ?K" by simp
    then have "(of_int (8847360000000000 + 1) :: rat) \<le> of_int ?K" by (simp only: of_int_le_iff)
    then have "(8640000000000 + 1 / 1024 :: rat) \<le> of_int ?K / 1024" by simp
    then show ?thesis by (simp only: rk)
  next
    case False
    then have e: "?e + 1 \<le> 42" by simp
    have "\<bar>a\<bar> < powerOf 2 (?e + 1)" by (rule exponentOf_upper[OF pos])
    also have "\<dots> \<le> powerOf 2 42" by (rule powerOf_mono[OF e])
    also have "\<dots> = 4398046511104" by (simp add: powerOf_def)
    finally have a: "\<bar>a\<bar> < 4398046511104" .
    from False have "max ?e (- 1022) - 52 \<le> - 11" by simp
    then have "?q \<le> powerOf 2 (- 11)" by (rule powerOf_mono)
    also have "\<dots> = 1 / 2048" by (simp add: powerOf_def)
    finally have q: "?q \<le> 1 / 2048" .
    from roundHalfEven_bounds[of "\<bar>a\<bar> / ?q"]
    have "of_int ?m \<le> \<bar>a\<bar> / ?q + 1 / 2" by simp
    then have "of_int ?m * ?q \<le> (\<bar>a\<bar> / ?q + 1 / 2) * ?q"
      using qpos by (simp only: mult_le_cancel_right_pos)
    moreover have "(\<bar>a\<bar> / ?q + 1 / 2) * ?q = \<bar>a\<bar> + ?q / 2" using qpos by (simp add: field_simps)
    ultimately have "\<bar>r\<bar> \<le> \<bar>a\<bar> + ?q / 2" by (simp add: r')
    with a q assms(2) show ?thesis by linarith
  qed
qed

declare decimalNumeral.simps [simp del]

lemma radixValue_snoc: "radixValue b (ds @ [c]) = b * radixValue b ds + hexDigitValue c"
  by (simp add: radixValue_def)

lemma of_char_digit:
  assumes "0 \<le> d" "d < 10"
  shows "(of_char (char_of (48 + d :: int)) :: nat) = 48 + nat d"
proof -
  have "(of_char (char_of (48 + d)) :: int) = (48 + d) mod 256" by (rule of_char_of)
  also have "\<dots> = 48 + d" using assms by simp
  finally have "int (of_char (char_of (48 + d))) = 48 + d" by (simp only: of_nat_of_char)
  then have "nat (int (of_char (char_of (48 + d)))) = nat (48 + d)" by (rule arg_cong)
  then show ?thesis using assms(1) by (simp add: nat_add_distrib)
qed

lemma hexDigitValue_digit:
  assumes "0 \<le> d" "d < 10"
  shows "hexDigitValue (char_of (48 + d :: int)) = d"
proof -
  have "(of_char (char_of (48 + d)) :: int) = (48 + d) mod 256" by (rule of_char_of)
  also have "\<dots> = 48 + d" using assms by simp
  finally have i: "(of_char (char_of (48 + d)) :: int) = 48 + d" .
  from assms have "nat d < 10" by simp
  then show ?thesis using i by (simp add: hexDigitValue_def isDigit_def of_char_digit[OF assms])
qed

lemma decimalDigitsValue_decimalNumeral: "0 \<le> n \<Longrightarrow> decimalDigitsValue (decimalNumeral n) = n"
proof (induction n rule: decimalNumeral.induct)
  case (1 n)
  show ?case
  proof (cases "n < 10")
    case True
    then have "decimalNumeral n = [char_of (48 + n)]" by (subst decimalNumeral.simps) simp
    then show ?thesis using hexDigitValue_digit[OF 1(2) True]
      by (simp add: decimalDigitsValue_def radixValue_def)
  next
    case False
    with 1 have ih: "decimalDigitsValue (decimalNumeral (n div 10)) = n div 10" by simp
    have d: "hexDigitValue (char_of (48 + n mod 10)) = n mod 10"
      by (rule hexDigitValue_digit) simp_all
    have "decimalNumeral n = decimalNumeral (n div 10) @ [char_of (48 + n mod 10)]"
      using False by (subst decimalNumeral.simps) simp
    then have "decimalDigitsValue (decimalNumeral n) = 10 * (n div 10) + n mod 10"
      using ih d by (simp add: decimalDigitsValue_def radixValue_snoc)
    also have "\<dots> = n" by presburger
    finally show ?thesis .
  qed
qed

lemma isDigit_char_of:
  assumes "0 \<le> d" "d < 10"
  shows "isDigit (char_of (48 + d :: int))"
proof -
  from assms have "nat d < 10" by simp
  then show ?thesis by (simp add: isDigit_def of_char_digit[OF assms])
qed

lemma decimalNumeral_digits:
  "0 \<le> n \<Longrightarrow> decimalNumeral n \<noteq> [] \<and> list_all isDigit (decimalNumeral n)"
proof (induction n rule: decimalNumeral.induct)
  case (1 n)
  show ?case
  proof (cases "n < 10")
    case True
    with 1(2) show ?thesis by (subst (1 2) decimalNumeral.simps) (simp add: isDigit_char_of)
  next
    case False
    with 1 have "list_all isDigit (decimalNumeral (n div 10))" by simp
    moreover have "isDigit (char_of (48 + n mod 10))" by (rule isDigit_char_of) simp_all
    ultimately show ?thesis using False by (subst (1 2) decimalNumeral.simps) simp
  qed
qed

lemma isDigit_not_space: "isDigit c \<Longrightarrow> \<not> isWhiteSpace c"
  by (auto simp: isDigit_def isWhiteSpace_def)

lemma isDigit_not_letter:
  "isDigit c \<Longrightarrow> c \<noteq> CHR ''+'' \<and> c \<noteq> CHR ''-'' \<and> c \<noteq> CHR ''I'' \<and> c \<noteq> CHR ''b''
     \<and> c \<noteq> CHR ''B'' \<and> c \<noteq> CHR ''o'' \<and> c \<noteq> CHR ''O'' \<and> c \<noteq> CHR ''x'' \<and> c \<noteq> CHR ''X''"
  by (auto simp: isDigit_def)

lemma trim_digits:
  assumes "s \<noteq> []" "list_all isDigit s"
  shows "trim s = s"
proof -
  from assms have "isDigit (hd s)" "isDigit (last s)" by (auto simp: list_all_iff)
  then have h: "\<not> isWhiteSpace (hd s)" and l: "\<not> isWhiteSpace (last s)"
    by (auto dest: isDigit_not_space)
  from assms(1) h have 1: "dropWhile isWhiteSpace s = s" by (cases s) auto
  from assms(1) l have 2: "dropWhile isWhiteSpace (rev s) = rev s"
    by (cases "rev s") (auto simp: last_rev[symmetric] hd_rev)
  show ?thesis by (simp add: trim_def 1 2)
qed

lemma digits_not_nonDecimal:
  assumes "list_all isDigit s"
  shows "\<not> isNonDecimalInteger s"
proof (cases s)
  case Nil
  then show ?thesis by (simp add: isNonDecimalInteger_def)
next
  case (Cons z t)
  show ?thesis
  proof (cases t)
    case Nil
    with Cons show ?thesis by (simp add: isNonDecimalInteger_def)
  next
    case (Cons x ds)
    with \<open>s = z # t\<close> assms have "isDigit x" by simp
    from isDigit_not_letter[OF this] Cons \<open>s = z # t\<close> show ?thesis
      by (simp add: isNonDecimalInteger_def)
  qed
qed

lemma stringToNumber_digits:
  assumes "s \<noteq> []" "list_all isDigit s" "\<bar>decimalDigitsValue s\<bar> \<le> 9007199254740992"
  shows "stringToNumber s = Finite (of_int (decimalDigitsValue s))"
proof -
  from assms obtain c cs where s: "s = c # cs" and c: "isDigit c" by (cases s) auto
  from isDigit_not_letter[OF c] s have st: "stripSign s = s" and ni: "s \<noteq> ''Infinity''"
    and nn: "hd s \<noteq> CHR ''-''"
    by (auto simp: stripSign_def)
  from assms(2) have tw: "takeWhile isDigit s = s" and dw: "dropWhile isDigit s = []"
    by (simp_all add: list_all_iff)
  from assms(1) have ud: "isUnsignedDecimal s" by (simp add: isUnsignedDecimal_def tw dw)
  have uv: "unsignedDecimalValue s = of_int (decimalDigitsValue s)"
    by (simp add: unsignedDecimalValue_def tw dw)
  show ?thesis
    using assms(1)
    by (simp add: stringToNumber_def Let_def trim_digits[OF assms(1,2)] st ni nn ud uv
        digits_not_nonDecimal[OF assms(2)] toDouble_of_int[OF assms(3)])
qed

lemma stringToNumber_decimalNumeral:
  assumes "0 \<le> n" "n \<le> 9007199254740992"
  shows "stringToNumber (decimalNumeral n) = Finite (of_int n)"
  using stringToNumber_digits[of "decimalNumeral n"] decimalNumeral_digits[OF assms(1)] assms
  by (simp add: decimalDigitsValue_decimalNumeral)

lemma toIntegerOrInfinity_of_int: "toIntegerOrInfinity (of_int k) = k"
  by (simp add: toIntegerOrInfinity_def)

lemma stringToNumber_double: "stringToNumber d = Finite x \<Longrightarrow> \<exists>a. toDouble a = Finite x"
proof -
  assume a: "stringToNumber d = Finite x"
  have z: "toDouble 0 = Finite 0" by (simp add: toDouble_def)
  from a z show ?thesis
    by (auto simp: stringToNumber_def Let_def split: if_splits)
qed

lemma parseDate_number:
  "stringToNumber d = Finite x \<Longrightarrow> parseDate dateOfString d = timeClip (toDouble (x * 1000))"
  by (simp add: parseDate_def multiply_def Let_def)

lemma toIntegerOrInfinity_quotient:
  assumes "0 \<le> m"
  shows "toIntegerOrInfinity (of_int m / 2 ^ n) = m div 2 ^ n"
    and "toIntegerOrInfinity (- (of_int m / 2 ^ n)) = - (m div 2 ^ n)"
proof -
  have f: "\<lfloor>of_int m / 2 ^ n :: rat\<rfloor> = m div 2 ^ n"
    using floor_divide_of_int_eq[of m "2 ^ n", where ?'a = rat] by simp
  from assms have p: "(0 :: rat) \<le> of_int m / 2 ^ n" by simp
  then show "toIntegerOrInfinity (of_int m / 2 ^ n) = m div 2 ^ n"
    by (simp add: toIntegerOrInfinity_def f)
  show "toIntegerOrInfinity (- (of_int m / 2 ^ n)) = - (m div 2 ^ n)"
  proof (cases "(of_int m / 2 ^ n :: rat) = 0")
    case True
    then have "m = 0" by simp
    then show ?thesis by (simp add: toIntegerOrInfinity_def)
  next
    case False
    with p have "\<not> 0 \<le> - (of_int m / 2 ^ n :: rat)" by simp
    then have "toIntegerOrInfinity (- (of_int m / 2 ^ n)) = \<lceil>- (of_int m / 2 ^ n :: rat)\<rceil>"
      by (simp only: toIntegerOrInfinity_def if_False)
    also have "\<dots> = - \<lfloor>of_int m / 2 ^ n :: rat\<rfloor>" by (simp add: ceiling_def)
    finally show ?thesis by (simp only: f)
  qed
qed

lemma timeClip_in_range:
  assumes "\<bar>a\<bar> \<le> 8640000000000000"
  shows "\<exists>t. timeClip (toDouble a) = TimeValue t \<and> \<bar>of_int t - a\<bar> < 1"
proof -
  from assms have "\<bar>a\<bar> \<le> of_int 8640000000000000" by simp
  from toDouble_in_range[OF this] obtain n m
    where r: "toDouble a = Finite (if a < 0 then - (of_int m / 2 ^ n) else of_int m / 2 ^ n)"
      and m0: "0 \<le> m" and rM: "of_int m / 2 ^ n \<le> (8640000000000000 :: rat)"
      and b: "\<bar>of_int m - \<bar>a\<bar> * 2 ^ n\<bar> \<le> 1 / 2"
    by auto
  from m0 have p: "(0 :: rat) \<le> of_int m / 2 ^ n" by simp
  from truncated_near[OF m0 b] have near: "\<bar>of_int (m div 2 ^ n) - \<bar>a\<bar>\<bar> < 1" .
  show ?thesis
  proof (cases "a < 0")
    case True
    with r p rM have "timeClip (toDouble a) = TimeValue (- (m div 2 ^ n))"
      by (simp add: timeClip_def toIntegerOrInfinity_quotient[OF m0])
    moreover from near True have "\<bar>of_int (- (m div 2 ^ n)) - a\<bar> < 1" by simp
    ultimately show ?thesis by blast
  next
    case False
    with r p rM have "timeClip (toDouble a) = TimeValue (m div 2 ^ n)"
      by (simp add: timeClip_def toIntegerOrInfinity_quotient[OF m0])
    moreover from near False have "\<bar>of_int (m div 2 ^ n) - a\<bar> < 1" by simp
    ultimately show ?thesis by blast
  qed
qed

lemma timeClip_integer:
  assumes "\<bar>k\<bar> \<le> 8640000000000000"
  shows "timeClip (toDouble (of_int k)) = TimeValue k"
proof -
  from assms have "\<bar>k\<bar> \<le> 9007199254740992" by simp
  from toDouble_of_int[OF this] have "toDouble (of_int k) = Finite (of_int k)" .
  moreover from assms have "\<bar>of_int k :: rat\<bar> \<le> 8640000000000000"
    using of_int_le_iff[of "\<bar>k\<bar>" 8640000000000000, where ?'a = rat] by simp
  ultimately show ?thesis by (simp add: timeClip_def toIntegerOrInfinity_of_int)
qed

lemma timeClip_out_of_range:
  assumes "8640000000000000 + 125 / 128 \<le> \<bar>a\<bar>"
  shows "timeClip (toDouble a) = InvalidDate"
  using toDouble_out_of_range[OF assms] by (auto simp: timeClip_def)

lemma parseDate_out_of_range:
  assumes "stringToNumber d = Finite x" "8640000000000000 < \<bar>x * 1000\<bar>"
  shows "timeClip (toDouble (x * 1000)) = InvalidDate"
proof -
  from stringToNumber_double[OF assms(1)] obtain a where a: "toDouble a = Finite x" by blast
  have m: "\<bar>x * 1000\<bar> = \<bar>x\<bar> * 1000" by (simp add: abs_mult)
  with assms(2) have "8640000000000 < \<bar>x\<bar>" by simp
  from toDouble_grid[OF a this] have "8640000000000000 + 125 / 128 \<le> \<bar>x * 1000\<bar>"
    by (simp add: m)
  then show ?thesis by (rule timeClip_out_of_range)
qed

text \<open>
  Claim C7, amended. A timestamp whose coercion to a number is NaN is parsed as a date
  string. A timestamp whose coercion is a finite number \<open>x\<close> is read as seconds: the
  date is that of the product \<open>x * 1000\<close>, rounded to a double. When the product is
  within 8.64e15 milliseconds of the epoch the date is valid and its time value, an
  integer, is less than 1 away from the product, and is the product itself when
  \<open>x\<close> is an integer. When the product is beyond 8.64e15 in magnitude, and when the
  coercion is infinite, the date is invalid and the schema rejects it. In particular
  the decimal numeral of every number of seconds up to 8640000000000 is read as that
  many seconds.
\<close>

theorem parseDate_seconds_or_date_string:
  "(stringToNumber d = NaN \<longrightarrow> parseDate dateOfString d = dateOfString d)
   \<and> (stringToNumber d = Finite x \<longrightarrow>
        parseDate dateOfString d = timeClip (toDouble (x * 1000)))
   \<and> (stringToNumber d = Finite x \<and> \<bar>x * 1000\<bar> \<le> 8640000000000000 \<longrightarrow>
        (\<exists>t. parseDate dateOfString d = TimeValue t \<and> timestampSchema dateOfString d = Inr t
             \<and> \<bar>of_int t - x * 1000\<bar> < 1))
   \<and> (stringToNumber d = Finite (of_int n) \<and> \<bar>n * 1000\<bar> \<le> 8640000000000000 \<longrightarrow>
        parseDate dateOfString d = TimeValue (n * 1000)
        \<and> timestampSchema dateOfString d = Inr (n * 1000))
   \<and> (stringToNumber d = Finite x \<and> 8640000000000000 < \<bar>x * 1000\<bar> \<longrightarrow>
        parseDate dateOfString d = InvalidDate
        \<and> timestampSchema dateOfString d = Inl invalid_date)
   \<and> (stringToNumber d = PlusInfinity \<or> stringToNumber d = MinusInfinity \<longrightarrow>
        parseDate dateOfString d = InvalidDate
        \<and> timestampSchema dateOfString d = Inl invalid_date)
   \<and> (0 \<le> seconds \<and> seconds \<le> 8640000000000 \<longrightarrow>
        stringToNumber (decimalNumeral seconds) = Finite (of_int seconds)
        \<and> parseDate dateOfString (decimalNumeral seconds) = TimeValue (seconds * 1000))"
proof -
  have 1: "stringToNumber d = NaN \<longrightarrow> parseDate dateOfString d = dateOfString d"
    by (simp add: parseDate_def)
  have 2: "stringToNumber d = Finite x \<longrightarrow>
        parseDate dateOfString d = timeClip (toDouble (x * 1000))"
    by (simp add: parseDate_number)
  have 3: "stringToNumber d = Finite x \<and> \<bar>x * 1000\<bar> \<le> 8640000000000000 \<longrightarrow>
        (\<exists>t. parseDate dateOfString d = TimeValue t \<and> timestampSchema dateOfString d = Inr t
             \<and> \<bar>of_int t - x * 1000\<bar> < 1)"
  proof
    assume a: "stringToNumber d = Finite x \<and> \<bar>x * 1000\<bar> \<le> 8640000000000000"
    then have "\<bar>x * 1000\<bar> \<le> 8640000000000000" by simp
    from timeClip_in_range[OF this] obtain t
      where "timeClip (toDouble (x * 1000)) = TimeValue t" "\<bar>of_int t - x * 1000\<bar> < 1"
      by blast
    with a show "\<exists>t. parseDate dateOfString d = TimeValue t
        \<and> timestampSchema dateOfString d = Inr t \<and> \<bar>of_int t - x * 1000\<bar> < 1"
      by (simp add: parseDate_number timestampSchema_def)
  qed
  have 4: "stringToNumber d = Finite (of_int n) \<and> \<bar>n * 1000\<bar> \<le> 8640000000000000 \<longrightarrow>
        parseDate dateOfString d = TimeValue (n * 1000)
        \<and> timestampSchema dateOfString d = Inr (n * 1000)"
  proof
    assume a: "stringToNumber d = Finite (of_int n) \<and> \<bar>n * 1000\<bar> \<le> 8640000000000000"
    then have "timeClip (toDouble (of_int (n * 1000))) = TimeValue (n * 1000)"
      by (intro timeClip_integer) simp
    then have "timeClip (toDouble (of_int n * 1000)) = TimeValue (n * 1000)" by simp
    with a show "parseDate dateOfString d = TimeValue (n * 1000)
        \<and> timestampSchema dateOfString d = Inr (n * 1000)"
      by (simp add: parseDate_number timestampSchema_def)
  qed
  have 5: "stringToNumber d = Finite x \<and> 8640000000000000 < \<bar>x * 1000\<bar> \<longrightarrow>
        parseDate dateOfString d = InvalidDate
        \<and> timestampSchema dateOfString d = Inl invalid_date"
  proof
    assume a: "stringToNumber d = Finite x \<and> 8640000000000000 < \<bar>x * 1000\<bar>"
    then have "timeClip (toDouble (x * 1000)) = InvalidDate"
      by (intro parseDate_out_of_range[of d]) simp_all
    with a show "parseDate dateOfString d = InvalidDate
        \<and> timestampSchema dateOfString d = Inl invalid_date"
      by (simp add: parseDate_number timestampSchema_def)
  qed
  have 6: "stringToNumber d = PlusInfinity \<or> stringToNumber d = MinusInfinity \<longrightarrow>
        parseDate dateOfString d = InvalidDate
        \<and> timestampSchema dateOfString d = Inl invalid_date"
    by (auto simp: parseDate_def timestampSchema_def multiply_def isNegative_def timeClip_def)
  have 7: "0 \<le> seconds \<and> seconds \<le> 8640000000000 \<longrightarrow>
        stringToNumber (decimalNumeral seconds) = Finite (of_int seconds)
        \<and> parseDate dateOfString (decimalNumeral seconds) = TimeValue (seconds * 1000)"
  proof
    assume a: "0 \<le> seconds \<and> seconds \<le> 8640000000000"
    then have s: "stringToNumber (decimalNumeral seconds) = Finite (of_int seconds)"
      by (intro stringToNumber_decimalNumeral) simp_all
    from a have "\<bar>seconds * 1000\<bar> \<le> 8640000000000000" by simp
    from timeClip_integer[OF this]
    have "timeClip (toDouble (of_int seconds * 1000)) = TimeValue (seconds * 1000)" by simp
    with s show "stringToNumber (decimalNumeral seconds) = Finite (of_int seconds)
        \<and> parseDate dateOfString (decimalNumeral seconds) = TimeValue (seconds * 1000)"
      by (simp add: parseDate_number)
  qed
  from 1 2 3 4 5 6 7 show ?thesis by (intro conjI)
qed

theorem log_one_record_per_nonempty_piece_witness:
  "rawCommits (logDelimiter @ '':1}'' @ logDelimiter @ '':22}'')
     = [logDelimiter @ '':1}'', logDelimiter @ '':22}'']
   \<and> (\<exists>cs. git_log (\<lambda>f. (Inr (length f) :: unit + nat))
               (Inr (logDelimiter @ '':1}'' @ logDelimiter @ '':22}'')) = Inr cs
            \<and> length cs = 2 \<and> cs ! 0 = 10 \<and> cs ! 1 = 11)"
proof -
  let ?out = "logDelimiter @ '':1}'' @ logDelimiter @ '':22}''"
  let ?parse = "\<lambda>f. (Inr (length f) :: unit + nat)"
  have r: "rawCommits ?out = [logDelimiter @ '':1}'', logDelimiter @ '':22}'']" by code_simp
  have all: "\<forall>f\<in>set (rawCommits ?out). \<exists>c. ?parse f = Inr c" by simp
  from log_one_record_per_nonempty_piece[of "?out" ?parse] all
  obtain cs where cs: "git_log ?parse (Inr ?out) = Inr cs" by blast
  from log_one_record_per_nonempty_piece[of "?out" ?parse cs] cs
  have len: "length cs = length (rawCommits ?out)"
    and nth: "\<forall>i<length cs. ?parse (rawCommits ?out ! i) = Inr (cs ! i)" by blast+
  from len r have l2: "length cs = 2" by simp
  from nth l2 have "?parse (rawCommits ?out ! 0) = Inr (cs ! 0)" "?parse (rawCommits ?out ! 1) = Inr (cs ! 1)"
    by auto
  then have "?parse ([logDelimiter @ '':1}'', logDelimiter @ '':22}''] ! 0) = Inr (cs ! 0)"
    "?parse ([logDelimiter @ '':1}'', logDelimiter @ '':22}''] ! 1) = Inr (cs ! 1)"
    unfolding r .
  then have "cs ! 0 = 10" "cs ! 1 = 11" by (simp_all add: logDelimiter_def)
  with cs l2 r show ?thesis by blast
qed

text \<open>
  The claim as it was stated, with every piece reconstituted, fails on any output that
  starts with the delimiter, as the output of \<open>git log\<close> does: the split yields an
  empty first piece, which the code drops and the claim would turn into a fragment.
\<close>

theorem log_empty_piece_counterexample:
  "split logDelimiter (logDelimiter @ '':1}'') = ['''', '':1}'']
   \<and> rawCommits (logDelimiter @ '':1}'') = [logDelimiter @ '':1}'']
   \<and> rawCommits_of_every_piece (logDelimiter @ '':1}'') = [logDelimiter, logDelimiter @ '':1}'']
   \<and> git_log (\<lambda>f. (Inr f :: unit + string)) (Inr (logDelimiter @ '':1}''))
       = Inr [logDelimiter @ '':1}'']"
  by code_simp

text \<open>Evaluating the coercion at a given string.\<close>

lemma floor_numeral_quotient: "\<lfloor>numeral a / numeral b :: rat\<rfloor> = numeral a div numeral b"
  using floor_divide_of_int_eq[of "numeral a" "numeral b", where ?'a = rat] by simp

lemma toDouble_finite:
  assumes "x \<noteq> 0" "exponentOf \<bar>x\<bar> = e" "powerOf 2 (max e (- 1022) - 52) = q"
    and "roundHalfEven (\<bar>x\<bar> / q) = m" "of_int m * q = r" "r \<le> 9007199254740992"
  shows "toDouble x = Finite (if x < 0 then - r else r)"
proof -
  from assms(6) powerOf_1024 have "\<not> powerOf 2 1024 \<le> r" by simp
  then show ?thesis by (simp add: toDouble_nonzero[OF assms(1)] assms(2-5) Let_def)
qed

lemmas literal_eval =
  stringToNumber_def trim_def isWhiteSpace_def stripSign_def isDigit_def isUnsignedDecimal_def
  isNonDecimalInteger_def unsignedDecimalValue_def decimalDigitsValue_def radixValue_def
  hexDigitValue_def exponentValue_def isExponentPart_def isDecimalDigits_def nonDecimalValue_def
  isHexDigit_def isBinaryDigit_def isOctalDigit_def powerOf_def Let_def

theorem parseDate_seconds_or_date_string_witness:
  "stringToNumber ''1700000000'' = Finite 1700000000
   \<and> parseDate (\<lambda>s. InvalidDate) ''1700000000'' = TimeValue 1700000000000
   \<and> stringToNumber ''Thu Jan 1 00:00:00 1970 +0000'' = NaN
   \<and> parseDate (\<lambda>s. TimeValue 0) ''Thu Jan 1 00:00:00 1970 +0000'' = TimeValue 0
   \<and> stringToNumber ''0x10'' = Finite 16
   \<and> parseDate (\<lambda>s. InvalidDate) ''0x10'' = TimeValue 16000
   \<and> stringToNumber ''1e3'' = Finite 1000
   \<and> parseDate (\<lambda>s. InvalidDate) ''1e3'' = TimeValue 1000000
   \<and> stringToNumber ''1700000000.5'' = Finite (3400000001 / 2)
   \<and> parseDate (\<lambda>s. InvalidDate) ''1700000000.5'' = TimeValue 1700000000500
   \<and> timestampSchema (\<lambda>s. InvalidDate) ''1700000000.5'' = Inr 1700000000500
   \<and> stringToNumber ''8640000000001'' = Finite 8640000000001
   \<and> timestampSchema (\<lambda>s. TimeValue 0) ''8640000000001'' = Inl invalid_date
   \<and> stringToNumber ''9007199254740993'' = Finite 9007199254740992
   \<and> parseDate (\<lambda>s. TimeValue 0) ''9007199254740993'' = InvalidDate
   \<and> stringToNumber ''-Infinity'' = MinusInfinity
   \<and> parseDate (\<lambda>s. TimeValue 0) ''-Infinity'' = InvalidDate
   \<and> decimalNumeral 86400 = ''86400''
   \<and> parseDate (\<lambda>s. InvalidDate) ''86400'' = TimeValue 86400000"
proof -
  have "stringToNumber ''1700000000'' = toDouble 1700000000"
    by (simp add: literal_eval)
  also have "\<dots> = Finite 1700000000" using toDouble_of_int[of 1700000000] by simp
  finally have n1: "stringToNumber ''1700000000'' = Finite (of_int 1700000000)" by simp
  have n2: "stringToNumber ''Thu Jan 1 00:00:00 1970 +0000'' = NaN"
    by (simp add: literal_eval)
  have "stringToNumber ''0x10'' = toDouble 16"
    by (simp add: literal_eval)
  also have "\<dots> = Finite 16" using toDouble_of_int[of 16] by simp
  finally have n3: "stringToNumber ''0x10'' = Finite (of_int 16)" by simp
  have "stringToNumber ''1e3'' = toDouble 1000"
    by (simp add: literal_eval)
  also have "\<dots> = Finite 1000" using toDouble_of_int[of 1000] by simp
  finally have n4: "stringToNumber ''1e3'' = Finite (of_int 1000)" by simp
  have "stringToNumber ''1700000000.5'' = toDouble (3400000001 / 2)"
    by (simp add: literal_eval)
  also have "\<dots> = Finite (if (3400000001 / 2 :: rat) < 0 then - (3400000001 / 2) else 3400000001 / 2)"
  proof (rule toDouble_finite)
    show "(3400000001 / 2 :: rat) \<noteq> 0" by simp
    show "exponentOf \<bar>3400000001 / 2\<bar> = 30"
      by (simp add: exponentOf_def floor_numeral_quotient floorLog2.simps)
    show "powerOf 2 (max 30 (- 1022) - 52) = 1 / 4194304" by (simp add: powerOf_def)
    show "roundHalfEven (\<bar>3400000001 / 2\<bar> / (1 / 4194304)) = 7130316802097152"
      by (simp add: roundHalfEven_def)
    show "of_int 7130316802097152 * (1 / 4194304) = (3400000001 / 2 :: rat)" by simp
    show "(3400000001 / 2 :: rat) \<le> 9007199254740992" by simp
  qed
  finally have n5: "stringToNumber ''1700000000.5'' = Finite (3400000001 / 2)" by simp
  have "stringToNumber ''9007199254740993'' = toDouble 9007199254740993"
    by (simp add: literal_eval)
  also have "\<dots> = Finite (if (9007199254740993 :: rat) < 0 then - 9007199254740992 else 9007199254740992)"
  proof (rule toDouble_finite)
    show "(9007199254740993 :: rat) \<noteq> 0" by simp
    show "exponentOf \<bar>9007199254740993\<bar> = 53"
      by (simp add: exponentOf_def floorLog2.simps)
    show "powerOf 2 (max 53 (- 1022) - 52) = 2" by (simp add: powerOf_def)
    show "roundHalfEven (\<bar>9007199254740993\<bar> / 2) = 4503599627370496"
      by (simp add: roundHalfEven_def floor_numeral_quotient)
    show "of_int 4503599627370496 * 2 = (9007199254740992 :: rat)" by simp
    show "(9007199254740992 :: rat) \<le> 9007199254740992" by simp
  qed
  finally have n6: "stringToNumber ''9007199254740993'' = Finite 9007199254740992" by simp
  have n7: "stringToNumber ''-Infinity'' = MinusInfinity"
    by (simp add: literal_eval)
  have n8: "decimalNumeral 86400 = ''86400''"
    by (simp add: decimalNumeral.simps char_of_def bit_0)
  have d1: "parseDate (\<lambda>s. InvalidDate) ''1700000000'' = TimeValue 1700000000000"
    using parseDate_seconds_or_date_string[of "''1700000000''" "\<lambda>s. InvalidDate" _ 1700000000] n1
    by simp
  have d2: "parseDate (\<lambda>s. TimeValue 0) ''Thu Jan 1 00:00:00 1970 +0000'' = TimeValue 0"
    using parseDate_seconds_or_date_string[of "''Thu Jan 1 00:00:00 1970 +0000''" "\<lambda>s. TimeValue 0"] n2
    by simp
  have d3: "parseDate (\<lambda>s. InvalidDate) ''0x10'' = TimeValue 16000"
    using parseDate_seconds_or_date_string[of "''0x10''" "\<lambda>s. InvalidDate" _ 16] n3
    by simp
  have d4: "parseDate (\<lambda>s. InvalidDate) ''1e3'' = TimeValue 1000000"
    using parseDate_seconds_or_date_string[of "''1e3''" "\<lambda>s. InvalidDate" _ 1000] n4
    by simp
  have "parseDate (\<lambda>s. InvalidDate) ''1700000000.5'' = timeClip (toDouble (3400000001 / 2 * 1000))"
    using parseDate_seconds_or_date_string[of "''1700000000.5''" "\<lambda>s. InvalidDate" "3400000001 / 2"] n5
    by blast
  also have "\<dots> = TimeValue 1700000000500"
    using timeClip_integer[of 1700000000500] by simp
  finally have d5: "parseDate (\<lambda>s. InvalidDate) ''1700000000.5'' = TimeValue 1700000000500" .
  have "\<bar>3400000001 / 2 * 1000 :: rat\<bar> \<le> 8640000000000000" by simp
  with parseDate_seconds_or_date_string[of "''1700000000.5''" "\<lambda>s. InvalidDate" "3400000001 / 2"] n5
  obtain t where "parseDate (\<lambda>s. InvalidDate) ''1700000000.5'' = TimeValue t"
    "timestampSchema (\<lambda>s. InvalidDate) ''1700000000.5'' = Inr t" by blast
  with d5 have s5: "timestampSchema (\<lambda>s. InvalidDate) ''1700000000.5'' = Inr 1700000000500"
    by simp
  have "stringToNumber ''8640000000001'' = toDouble 8640000000001"
    by (simp add: literal_eval)
  also have "\<dots> = Finite 8640000000001" using toDouble_of_int[of 8640000000001] by simp
  finally have n9: "stringToNumber ''8640000000001'' = Finite 8640000000001" .
  have "8640000000000000 < \<bar>8640000000001 * 1000 :: rat\<bar>" by simp
  with parseDate_seconds_or_date_string[of "''8640000000001''" "\<lambda>s. TimeValue 0" 8640000000001] n9
  have s9: "timestampSchema (\<lambda>s. TimeValue 0) ''8640000000001'' = Inl invalid_date"
    by blast
  have "8640000000000000 < \<bar>9007199254740992 * 1000 :: rat\<bar>" by simp
  with parseDate_seconds_or_date_string[of "''9007199254740993''" "\<lambda>s. TimeValue 0" 9007199254740992] n6
  have d6: "parseDate (\<lambda>s. TimeValue 0) ''9007199254740993'' = InvalidDate"
    by blast
  have d7: "parseDate (\<lambda>s. TimeValue 0) ''-Infinity'' = InvalidDate"
    using parseDate_seconds_or_date_string[of "''-Infinity''" "\<lambda>s. TimeValue 0"] n7
    by simp
  have d8: "parseDate (\<lambda>s. InvalidDate) ''86400'' = TimeValue 86400000"
    using parseDate_seconds_or_date_string[where seconds = 86400 and dateOfString = "\<lambda>s. InvalidDate"] n8
    by simp
  from n1 n2 n3 n4 n5 n6 n7 n8 n9 d1 d2 d3 d4 d5 d6 d7 d8 s5 s9 show ?thesis by simp
qed

text \<open>
  The claim as it was stated fails beyond the range of a \<open>Date\<close>: the coercion of
  \<open>8640000000001\<close> is a number, and so is that of \<open>Infinity\<close>, but the date is invalid,
  not that many seconds after the epoch. And a time value has no fraction: \<open>0.0625\<close>
  seconds are 62.5 milliseconds, the date is 62 milliseconds after the epoch.
\<close>

theorem parseDate_out_of_range_counterexample:
  "stringToNumber ''8640000000001'' = Finite 8640000000001
   \<and> parseDate (\<lambda>s. TimeValue 0) ''8640000000001'' = InvalidDate
   \<and> parseDate (\<lambda>s. TimeValue 0) ''8640000000001'' \<noteq> TimeValue (8640000000001 * 1000)
   \<and> stringToNumber ''Infinity'' = PlusInfinity
   \<and> parseDate (\<lambda>s. TimeValue 0) ''Infinity'' = InvalidDate
   \<and> stringToNumber ''0.0625'' = Finite (1 / 16)
   \<and> parseDate (\<lambda>s. InvalidDate) ''0.0625'' = TimeValue 62"
proof -
  have "stringToNumber ''8640000000001'' = toDouble 8640000000001"
    by (simp add: literal_eval)
  also have "\<dots> = Finite 8640000000001" using toDouble_of_int[of 8640000000001] by simp
  finally have 1: "stringToNumber ''8640000000001'' = Finite 8640000000001" .
  have 2: "stringToNumber ''Infinity'' = PlusInfinity"
    by (simp add: literal_eval)
  have 3: "timeClip (toDouble (8640000000001 * 1000)) = InvalidDate"
    by (rule timeClip_out_of_range) simp
  have 4: "parseDate (\<lambda>s. TimeValue 0) ''8640000000001'' = InvalidDate"
    using 3 by (simp add: parseDate_number[OF 1])
  have 5: "parseDate (\<lambda>s. TimeValue 0) ''Infinity'' = InvalidDate"
    by (simp add: parseDate_def 2 multiply_def isNegative_def timeClip_def)
  have "stringToNumber ''0.0625'' = toDouble (1 / 16)"
    by (simp add: literal_eval)
  also have "\<dots> = Finite (if (1 / 16 :: rat) < 0 then - (1 / 16) else 1 / 16)"
  proof (rule toDouble_finite)
    show "(1 / 16 :: rat) \<noteq> 0" by simp
    show "exponentOf \<bar>1 / 16\<bar> = - 4"
      by (simp add: exponentOf_def ceilingLog2_def floorLog2.simps)
    show "powerOf 2 (max (- 4) (- 1022) - 52) = 1 / 72057594037927936" by (simp add: powerOf_def)
    show "roundHalfEven (\<bar>1 / 16\<bar> / (1 / 72057594037927936)) = 4503599627370496"
      by (simp add: roundHalfEven_def)
    show "of_int 4503599627370496 * (1 / 72057594037927936) = (1 / 16 :: rat)" by simp
    show "(1 / 16 :: rat) \<le> 9007199254740992" by simp
  qed
  finally have 6: "stringToNumber ''0.0625'' = Finite (1 / 16)" by simp
  have "toDouble (1 / 16 * 1000) = Finite (if (1 / 16 * 1000 :: rat) < 0 then - (125 / 2) else 125 / 2)"
  proof (rule toDouble_finite)
    show "(1 / 16 * 1000 :: rat) \<noteq> 0" by simp
    show "exponentOf \<bar>1 / 16 * 1000\<bar> = 5"
      by (simp add: exponentOf_def floor_numeral_quotient floorLog2.simps)
    show "powerOf 2 (max 5 (- 1022) - 52) = 1 / 140737488355328" by (simp add: powerOf_def)
    show "roundHalfEven (\<bar>1 / 16 * 1000\<bar> / (1 / 140737488355328)) = 8796093022208000"
      by (simp add: roundHalfEven_def)
    show "of_int 8796093022208000 * (1 / 140737488355328) = (125 / 2 :: rat)" by simp
    show "(125 / 2 :: rat) \<le> 9007199254740992" by simp
  qed
  then have "timeClip (toDouble (1 / 16 * 1000)) = TimeValue 62"
    by (simp add: timeClip_def toIntegerOrInfinity_def floor_numeral_quotient)
  then have 7: "parseDate (\<lambda>s. InvalidDate) ''0.0625'' = TimeValue 62"
    by (simp only: parseDate_number[OF 6])
  from 1 2 4 5 6 7 show ?thesis by simp
qed

section \<open>Properties of the command runner\<close>

lemma localPaths_cases:
  "localPaths out = (case walk out (BIN_DIR out) of Inl e \<Rightarrow> [] | Inr entries \<Rightarrow> map (toUrl out) entries)"
  by (simp add: localPaths_def tryCatch_def getLocalPaths_def split: sum.splits)

lemma defaultPaths_value:
  "defaultPaths = [''https://cdn.jsdelivr.net/gh/toridoriv/my-dev-toolkit@main/bin/init-deno.ts'']"
  by (simp add: defaultPaths_def)

text \<open>
  Claim C1, amended. When listing the scripts directory fails, the list of local paths
  is empty and the module does not throw for that: the subcommands are then the command
  descriptors the default module exports, these are registered with the root command,
  and the arguments are parsed. The module still throws when the import of the default
  module fails, or when the library refuses a subcommand.
\<close>

theorem listing_failure_leaves_default_commands:
  assumes "walk out (BIN_DIR out) = Inl e"
  shows "localPaths out = []
     \<and> (\<forall>exports. importModule out (hd defaultPaths) = Inr exports \<longrightarrow>
          subcommands out
            = Inr (map (toCliffy out) (filter isCommandOptions (map snd exports)))
          \<and> runModule out
            = (case registerSubcommands (addCommand out) (rootCommand out)
                      (map (toCliffy out) (filter isCommandOptions (map snd exports))) of
                 Inl e' \<Rightarrow> Inl e'
               | Inr command \<Rightarrow>
                   Inr \<lparr>registered = command,
                        parsed = (if isMain out then Some (processArgs out) else None)\<rparr>))
     \<and> (\<forall>e'. importModule out (hd defaultPaths) = Inl e' \<longrightarrow>
          subcommands out = Inl e' \<and> runModule out = Inl e')"
proof -
  from assms have l: "localPaths out = []" by (simp add: localPaths_cases)
  have s: "subcommands out =
      (case importModule out (hd defaultPaths) of
         Inl e' \<Rightarrow> Inl e'
       | Inr exports \<Rightarrow> Inr (map (toCliffy out) (filter isCommandOptions (map snd exports))))"
    by (simp add: subcommands_def l defaultPaths_value getAllModuleImports_def split: sum.splits)
  show ?thesis
    by (auto simp: l s runModule_def split: sum.splits)
qed

theorem listing_failure_leaves_default_commands_witness:
  "localPaths
     \<lparr>walk = \<lambda>d. Inl ''NotFound'', toUrl = \<lambda>p. ''file:///work/'' @ p,
      importModule = \<lambda>p. if p = hd defaultPaths then Inr initDenoExports else Inl ''NotFound'',
      toCliffy = \<lambda>v. [v], addCommand = \<lambda>r c. Inr (r @ c), rootCommand = [],
      BIN_DIR = ''./bin'', isMain = True, processArgs = [''init-deno'', ''demo'']\<rparr> = []
   \<and> runModule
     \<lparr>walk = \<lambda>d. Inl ''NotFound'', toUrl = \<lambda>p. ''file:///work/'' @ p,
      importModule = \<lambda>p. if p = hd defaultPaths then Inr initDenoExports else Inl ''NotFound'',
      toCliffy = \<lambda>v. [v], addCommand = \<lambda>r c. Inr (r @ c), rootCommand = [],
      BIN_DIR = ''./bin'', isMain = True, processArgs = [''init-deno'', ''demo'']\<rparr>
     = Inr \<lparr>registered = map snd initDenoExports, parsed = Some [''init-deno'', ''demo'']\<rparr>"
proof -
  let ?out = "\<lparr>walk = \<lambda>d. Inl ''NotFound'', toUrl = \<lambda>p. ''file:///work/'' @ p,
      importModule = \<lambda>p. if p = hd defaultPaths then Inr initDenoExports else Inl ''NotFound'',
      toCliffy = \<lambda>v. [v], addCommand = \<lambda>r c. Inr (r @ c), rootCommand = [],
      BIN_DIR = ''./bin'', isMain = True, processArgs = [''init-deno'', ''demo'']\<rparr>
      :: (string, jsvalue list) Outside"
  have w: "walk ?out (BIN_DIR ?out) = Inl ''NotFound''" by simp
  have i: "importModule ?out (hd defaultPaths) = Inr initDenoExports" by simp
  have f: "filter isCommandOptions (map snd initDenoExports) = map snd initDenoExports"
    by (simp add: initDenoExports_def isCommandOptions_def hasProperty_def)
  have r: "registerSubcommands (addCommand ?out) (rootCommand ?out)
             (map (toCliffy ?out) (map snd initDenoExports)) = Inr (map snd initDenoExports)"
    by (simp add: initDenoExports_def)
  from listing_failure_leaves_default_commands[OF w] i
  have "localPaths ?out = []"
    and "runModule ?out
            = (case registerSubcommands (addCommand ?out) (rootCommand ?out)
                      (map (toCliffy ?out) (filter isCommandOptions (map snd initDenoExports))) of
                 Inl e' \<Rightarrow> Inl e'
               | Inr command \<Rightarrow>
                   Inr \<lparr>registered = command,
                        parsed = (if isMain ?out then Some (processArgs ?out) else None)\<rparr>)"
    by blast+
  then show ?thesis unfolding f r by simp
qed

text \<open>
  The claim as it was stated, with an empty list of subcommands, fails: the default
  module is imported whether or not the listing failed, and its command is a
  subcommand.
\<close>

theorem listing_failure_default_command_counterexample:
  "walk \<lparr>walk = \<lambda>d. Inl ''NotFound'', toUrl = \<lambda>p. ''file:///work/'' @ p,
      importModule = \<lambda>p. if p = hd defaultPaths then Inr initDenoExports else Inl ''NotFound'',
      toCliffy = \<lambda>v. [v], addCommand = \<lambda>r c. Inr (r @ c), rootCommand = [],
      BIN_DIR = ''./bin'', isMain = True, processArgs = [''init-deno'', ''demo'']\<rparr> ''./bin''
     = (Inl ''NotFound'' :: string + string list)
   \<and> subcommands
     \<lparr>walk = \<lambda>d. Inl ''NotFound'', toUrl = \<lambda>p. ''file:///work/'' @ p,
      importModule = \<lambda>p. if p = hd defaultPaths then Inr initDenoExports else Inl ''NotFound'',
      toCliffy = \<lambda>v. [v], addCommand = \<lambda>r c. Inr (r @ c), rootCommand = [],
      BIN_DIR = ''./bin'', isMain = True, processArgs = [''init-deno'', ''demo'']\<rparr>
     = (Inr [map snd initDenoExports] :: string + jsvalue list list)
   \<and> subcommands
     \<lparr>walk = \<lambda>d. Inl ''NotFound'', toUrl = \<lambda>p. ''file:///work/'' @ p,
      importModule = \<lambda>p. if p = hd defaultPaths then Inr initDenoExports else Inl ''NotFound'',
      toCliffy = \<lambda>v. [v], addCommand = \<lambda>r c. Inr (r @ c), rootCommand = [],
      BIN_DIR = ''./bin'', isMain = True, processArgs = [''init-deno'', ''demo'']\<rparr>
     \<noteq> (Inr [] :: string + jsvalue list list)"
  by (simp add: subcommands_def localPaths_def tryCatch_def getLocalPaths_def
      getAllModuleImports_def defaultPaths_def initDenoExports_def isCommandOptions_def
      hasProperty_def)

end
